theory Spec2Isabelle
  imports Main "HOL-Library.Word" "HOL-Library.Mapping" "HOL-Library.List_Lexorder" "HOL-Library.Char_ord"
begin

section \<open>Values shared by both packages\<close>

text \<open>
  A Go \<^verbatim>\<open>error\<close> value. \<^verbatim>\<open>ExitError c\<close> is the transport's structured exit-status error
  (\<^verbatim>\<open>*ssh.ExitError\<close>, whose \<^verbatim>\<open>ExitStatus()\<close> is \<open>c\<close>); \<^verbatim>\<open>Error msg\<close> is any other non-nil
  error. A nil error is \<open>None\<close> of \<open>error option\<close>.
\<close>

datatype error = ExitError int | Error string

text \<open>Go run-time faults (panics) that the modelled code can raise.\<close>

datatype fault = IndexOutOfRange | NilDereference | NilMapWrite

section \<open>Package livelog: the log stream writer\<close>

text \<open>
  \<^verbatim>\<open>Line\<close> is declared in another file of the package; the writer fills these four fields.
\<close>

record Line =
  Number :: int
  Message :: string
  Timestamp :: int
  Level :: string

text \<open>The requests the writer sends to its \<^verbatim>\<open>Client\<close>, in the order they are made.\<close>

datatype client_call =
    Open_call string
  | Batch_call string "Line list"
  | Upload_call string string
  | Close_call string

text \<open>
  The writer. The field \<open>client\<close> stands for the collaborator and holds the requests it has
  received so far; the channel \<^verbatim>\<open>close\<close> is closed exactly when \<open>closed\<close> is set (both happen
  in \<^verbatim>\<open>stop\<close>); \<open>ready\<close> tells whether the one-slot channel \<^verbatim>\<open>ready\<close> holds a token.
  Sizes are Go \<^verbatim>\<open>int\<close>s; they count bytes held in memory, so they stay far below the 64-bit
  range and are modelled as unbounded integers. Console output is not modelled.
\<close>

record Writer =
  client :: "client_call list"
  key :: string
  num :: int
  now :: int
  size' :: int
  limit :: int
  interval :: int
  pending :: "Line list"
  history :: "Line list"
  closed :: bool
  ready :: bool

definition defaultLimit :: int where
  "defaultLimit = 5242880"

definition Second :: int where
  "Second = 1000000000"

definition New :: "client_call list \<Rightarrow> string \<Rightarrow> int \<Rightarrow> Writer" where
  "New cl ident t =
     \<lparr> client = cl @ [Open_call ident], key = ident, num = 0, now = t, size' = 0,
       limit = defaultLimit, interval = Second, pending = [], history = [],
       closed = False, ready = False \<rparr>"

definition SetLimit :: "int \<Rightarrow> Writer \<Rightarrow> Writer" where
  "SetLimit l b = b\<lparr>limit := l\<rparr>"

definition SetInterval :: "int \<Rightarrow> Writer \<Rightarrow> Writer" where
  "SetInterval i b = b\<lparr>interval := i\<rparr>"

subsection \<open>Splitting a block into lines\<close>

definition LF :: char where
  "LF = CHR 0x0A"

text \<open>\<^verbatim>\<open>strings.TrimSuffix(s, "\n")\<close>, \<^verbatim>\<open>strings.Contains(s, "\n")\<close> and
  \<^verbatim>\<open>strings.SplitAfter(s, "\n")\<close>: the last one cuts after every line feed and always ends
  with the rest of the string, which is empty when the string ends in a line feed.\<close>

definition TrimSuffixLF :: "string \<Rightarrow> string" where
  "TrimSuffixLF s = (if s \<noteq> [] \<and> last s = LF then butlast s else s)"

definition ContainsLF :: "string \<Rightarrow> bool" where
  "ContainsLF s = (LF \<in> set s)"

fun SplitAfterLF :: "string \<Rightarrow> string list" where
  "SplitAfterLF [] = [[]]"
| "SplitAfterLF (c # cs) =
     (if c = LF then [c] # SplitAfterLF cs
      else (c # hd (SplitAfterLF cs)) # tl (SplitAfterLF cs))"

definition split :: "string \<Rightarrow> string list" where
  "split p = (if ContainsLF (TrimSuffixLF p) then SplitAfterLF p else [p])"

subsection \<open>Stopping, flushing, uploading\<close>

definition stop :: "Writer \<Rightarrow> bool \<times> Writer" where
  "stop b = (if \<not> closed b then (True, b\<lparr>closed := True\<rparr>) else (False, b))"

definition stopped :: "Writer \<Rightarrow> bool" where
  "stopped b = closed b"

definition copy :: "Writer \<Rightarrow> Line list" where
  "copy b = [] @ pending b"

definition clear :: "Writer \<Rightarrow> Writer" where
  "clear b = b\<lparr>pending := take 0 (pending b)\<rparr>"

text \<open>\<open>flush r b\<close>: \<open>r\<close> is what the client answers to the \<^verbatim>\<open>Batch\<close> request, if one is made.\<close>

definition flush :: "error option \<Rightarrow> Writer \<Rightarrow> error option \<times> Writer" where
  "flush r b =
     (let lines = copy b; b1 = clear b
      in if length lines = 0 then (None, b1)
         else (r, b1\<lparr>client := client b1 @ [Batch_call (key b1) lines]\<rparr>))"

text \<open>
  The loop of \<^verbatim>\<open>upload\<close>: each record is encoded and appended to the buffer; the first
  encoding error ends the upload. The JSON encoder is a parameter \<open>enc\<close>.
\<close>

fun encode_history :: "(Line \<Rightarrow> error + string) \<Rightarrow> Line list \<Rightarrow> string \<Rightarrow> error + string" where
  "encode_history enc [] data = Inr data"
| "encode_history enc (l # ls) data =
     (case enc l of Inl err \<Rightarrow> Inl err | Inr buf \<Rightarrow> encode_history enc ls (data @ buf))"

definition upload :: "(Line \<Rightarrow> error + string) \<Rightarrow> error option \<Rightarrow> Writer \<Rightarrow> error option \<times> Writer" where
  "upload enc r b =
     (case encode_history enc (history b) [] of
        Inl err \<Rightarrow> (Some err, b)
      | Inr data \<Rightarrow> (r, b\<lparr>client := client b @ [Upload_call (key b) data]\<rparr>))"

subsection \<open>Write\<close>

text \<open>
  The eviction loop of \<^verbatim>\<open>Write\<close>; \<open>n\<close> is \<^verbatim>\<open>len(p)\<close>, the length of the whole block being
  written. Reading \<^verbatim>\<open>b.history[0]\<close> of an empty history is a run-time fault.
\<close>

function evict :: "nat \<Rightarrow> Writer \<Rightarrow> fault + Writer" where
  "evict n b =
     (if size' b + int n > limit b then
        (let b1 = snd (stop b) in
         case history b1 of
           [] \<Rightarrow> Inl IndexOutOfRange
         | l # ls \<Rightarrow> evict n (b1\<lparr>size' := size' b1 - int (length (Message l)), history := ls\<rparr>))
      else Inr b)"
  by pat_completeness auto
termination
  by (relation "measure (\<lambda>(n, b). length (history b))") (auto simp: stop_def split: if_splits)

text \<open>
  One round of the \<^verbatim>\<open>range split(p)\<close> loop. \<open>tm\<close> is the clock: \<open>tm k\<close> is what
  \<^verbatim>\<open>time.Now()\<close> returns when record number \<open>k\<close> is built.
\<close>

definition write_part :: "(int \<Rightarrow> int) \<Rightarrow> nat \<Rightarrow> Writer \<Rightarrow> string \<Rightarrow> fault + Writer" where
  "write_part tm n b part =
     (let line = \<lparr> Number = num b, Message = part, Timestamp = tm (num b), Level = ''info'' \<rparr>
      in case evict n b of
           Inl f \<Rightarrow> Inl f
         | Inr b1 \<Rightarrow>
             (let b2 = b1\<lparr>size' := size' b1 + int (length part), num := num b1 + 1\<rparr>;
                  b3 = (if \<not> stopped b2 then b2\<lparr>pending := pending b2 @ [line]\<rparr> else b2)
              in Inr (b3\<lparr>history := history b3 @ [line]\<rparr>)))"

fun write_parts :: "(int \<Rightarrow> int) \<Rightarrow> nat \<Rightarrow> Writer \<Rightarrow> string list \<Rightarrow> fault + Writer" where
  "write_parts tm n b [] = Inr b"
| "write_parts tm n b (part # parts) =
     (case write_part tm n b part of
        Inl f \<Rightarrow> Inl f
      | Inr b1 \<Rightarrow> write_parts tm n b1 parts)"

definition Write :: "(int \<Rightarrow> int) \<Rightarrow> string \<Rightarrow> Writer \<Rightarrow> fault + ((int \<times> error option) \<times> Writer)" where
  "Write tm p b =
     (case write_parts tm (length p) b (split p) of
        Inl f \<Rightarrow> Inl f
      | Inr b1 \<Rightarrow> Inr ((int (length p), None), b1\<lparr>ready := True\<rparr>))"

subsection \<open>Close\<close>

text \<open>\<open>rb\<close>, \<open>ru\<close> and \<open>rc\<close> are the client's answers to \<^verbatim>\<open>Batch\<close>, \<^verbatim>\<open>Upload\<close> and
  \<^verbatim>\<open>Close\<close>.\<close>

definition Close :: "(Line \<Rightarrow> error + string) \<Rightarrow> error option \<Rightarrow> error option \<Rightarrow> error option
    \<Rightarrow> Writer \<Rightarrow> error option \<times> Writer" where
  "Close enc rb ru rc b =
     (let (first, b1) = stop b;
          b2 = (if first then snd (flush rb b1) else b1);
          (err, b3) = upload enc ru b2;
          b4 = b3\<lparr>client := client b3 @ [Close_call (key b3)]\<rparr>
      in (err, b4))"

subsection \<open>Histories of operations\<close>

text \<open>
  The writer is driven by its caller (\<^verbatim>\<open>Write\<close>, \<^verbatim>\<open>Close\<close>) and by the background task
  \<^verbatim>\<open>start\<close>, whose only action on the writer is a \<^verbatim>\<open>flush\<close>. A history is a list of such
  operations, each with the answers the client gives; it ends at the first fault.
\<close>

datatype op =
    OpWrite string
  | OpFlush "error option"
  | OpClose "error option" "error option" "error option"

fun exec :: "(int \<Rightarrow> int) \<Rightarrow> (Line \<Rightarrow> error + string) \<Rightarrow> Writer \<Rightarrow> op \<Rightarrow> fault + Writer" where
  "exec tm enc b (OpWrite p) = map_sum id snd (Write tm p b)"
| "exec tm enc b (OpFlush r) = Inr (snd (flush r b))"
| "exec tm enc b (OpClose rb ru rc) = Inr (snd (Close enc rb ru rc b))"

fun run :: "(int \<Rightarrow> int) \<Rightarrow> (Line \<Rightarrow> error + string) \<Rightarrow> Writer \<Rightarrow> op list \<Rightarrow> fault + Writer" where
  "run tm enc b [] = Inr b"
| "run tm enc b (x # xs) =
     (case exec tm enc b x of Inl f \<Rightarrow> Inl f | Inr b1 \<Rightarrow> run tm enc b1 xs)"

text \<open>The records a history has written, in order: one per part of every block, numbered
  from \<open>k\<close>.\<close>

fun lines_from :: "(int \<Rightarrow> int) \<Rightarrow> int \<Rightarrow> string list \<Rightarrow> Line list" where
  "lines_from tm k [] = []"
| "lines_from tm k (m # ms) =
     \<lparr> Number = k, Message = m, Timestamp = tm k, Level = ''info'' \<rparr> # lines_from tm (k + 1) ms"

fun parts_of :: "op \<Rightarrow> string list" where
  "parts_of (OpWrite p) = split p"
| "parts_of (OpFlush r) = []"
| "parts_of (OpClose rb ru rc) = []"

definition written :: "(int \<Rightarrow> int) \<Rightarrow> op list \<Rightarrow> Line list" where
  "written tm ops = lines_from tm 0 (concat (map parts_of ops))"

definition total_len :: "Line list \<Rightarrow> int" where
  "total_len ls = (\<Sum>l\<leftarrow>ls. int (length (Message l)))"

text \<open>
  The loop of \<^verbatim>\<open>Write\<close> as the specification words it, for comparison with the code: the
  guard of the eviction loop adds the length of the incoming line instead of the length of
  the block.
\<close>

fun write_parts_by_line :: "(int \<Rightarrow> int) \<Rightarrow> Writer \<Rightarrow> string list \<Rightarrow> fault + Writer" where
  "write_parts_by_line tm b [] = Inr b"
| "write_parts_by_line tm b (part # parts) =
     (case write_part tm (length part) b part of
        Inl f \<Rightarrow> Inl f
      | Inr b1 \<Rightarrow> write_parts_by_line tm b1 parts)"

text \<open>
  Two invariants of the writer. The first relates the history to the messages \<open>msgs\<close>
  written so far; the second bounds the pending batch.
\<close>

definition hist_inv :: "(int \<Rightarrow> int) \<Rightarrow> string list \<Rightarrow> Writer \<Rightarrow> bool" where
  "hist_inv tm msgs b \<longleftrightarrow>
     (\<exists>ev. lines_from tm 0 msgs = ev @ history b) \<and> num b = int (length msgs) \<and>
     (closed b \<or> history b = lines_from tm 0 msgs)"

definition pend_inv :: "Writer \<Rightarrow> bool" where
  "pend_inv b \<longleftrightarrow>
     total_len (pending b) \<le> max 0 (limit b) \<and>
     (closed b \<or> 0 \<le> size' b \<and> total_len (pending b) \<le> size' b)"

text \<open>Concrete parameters for evaluating the model: a clock that stands still and an encoder
  that writes the message of a record.\<close>

definition clock0 :: "int \<Rightarrow> int" where
  "clock0 k = 0"

definition enc_message :: "Line \<Rightarrow> error + string" where
  "enc_message l = Inr (Message l)"

text \<open>The record that one round of the loop builds for a part.\<close>

definition new_line :: "(int \<Rightarrow> int) \<Rightarrow> Writer \<Rightarrow> string \<Rightarrow> Line" where
  "new_line tm b part =
     \<lparr> Number = num b, Message = part, Timestamp = tm (num b), Level = ''info'' \<rparr>"

section \<open>Package engine: instance lifecycle and step execution\<close>

subsection \<open>Specifications of instances and steps\<close>

text \<open>
  The types \<^verbatim>\<open>Spec\<close> and \<^verbatim>\<open>Step\<close> are declared outside the engine's source file; the
  records below have the fields that the engine reads and writes. \<^verbatim>\<open>Instance.Tags\<close> is a Go
  map, whose zero value is nil: \<open>None\<close> is the nil map and \<open>Some m\<close> an allocated one. \<^verbatim>\<open>Setup\<close>
  writes into the map in place, so the caller's spec sees the writes; a write into the nil
  map is a run-time fault. The template of a pool is a \<^verbatim>\<open>*Spec\<close>, nil in the zero \<^verbatim>\<open>Pool\<close>:
  \<open>None\<close> is the nil pointer. The spec that the caller hands to \<^verbatim>\<open>Setup\<close>, \<^verbatim>\<open>Destroy\<close> or
  \<^verbatim>\<open>Run\<close> is a valid reference.
\<close>

record Account =
  AccessKeyID :: string
  AccessKeySecret :: string
  Region :: string

record Network =
  SubnetID :: string
  SecurityGroups :: "string list"
  PrivateIP :: bool

record Device =
  Name :: string

record Disk =
  disk_Type :: string
  Size :: int
  Iops :: int

record Instance =
  AMI :: string
  IAMProfileARN :: string
  User :: string
  PrivateKey :: string
  Type :: string
  UserData :: string
  Tags :: "(string \<rightharpoonup> string) option"
  Network :: Network
  Device :: Device
  Disk :: Disk
  UsePool :: bool
  ID :: string
  IP :: string

record Platform =
  OS :: string

record File =
  Path :: string
  IsDir :: bool
  Mode :: "32 word"
  Data :: string

record VolumeEmptyDir =
  emptydir_ID :: string

record Volume =
  EmptyDir :: VolumeEmptyDir

record Spec =
  Account :: Account
  Instance :: Instance
  PoolName :: string
  Root :: string
  Files :: "File list"
  Volumes :: "Volume list"
  Platform :: Platform

record Secret =
  Env :: string
  secret_Data :: string

record Step =
  step_Files :: "File list"
  WorkingDir :: string
  Secrets :: "Secret list"
  Envs :: "(string, string) mapping"
  Command :: string
  Args :: "string list"

record State =
  ExitCode :: int
  Exited :: bool
  OOMKilled :: bool

record Pool =
  InstanceSpec :: "Spec option"
  PoolSize :: int

text \<open>The lock \<^verbatim>\<open>AwsMutex\<close> is handed on to the platform and has no part in the model.\<close>

record Opts =
  RunnerName :: string
  Pools :: "string \<rightharpoonup> Pool"

record Engine =
  opts :: Opts

subsection \<open>The collaborators\<close>

text \<open>The argument records of package \<^verbatim>\<open>platform\<close>, with their fields prefixed.\<close>

record Credentials =
  c_Client :: string
  c_Secret :: string
  c_Region :: string

record ProvisionArgs =
  p_Image :: string
  p_IamProfileArn :: string
  p_Name :: string
  p_Size :: string
  p_Region :: string
  p_Userdata :: string
  p_Tags :: "(string \<rightharpoonup> string) option"
  p_Subnet :: string
  p_Groups :: "string list"
  p_Device :: string
  p_PrivateIP :: bool
  p_VolumeType :: string
  p_VolumeSize :: int
  p_VolumeIops :: int

record PInstance =
  i_ID :: string
  i_IP :: string

text \<open>How the race between the remote command and the caller's context ends: the command
  returns first with its error, or the context is done first and \<^verbatim>\<open>ctx.Err()\<close> is the error.\<close>

datatype outcome = Done "error option" | Cancelled error

text \<open>
  The packages \<^verbatim>\<open>platform\<close>, \<^verbatim>\<open>ssh\<close> and \<^verbatim>\<open>sftp\<close> are not part of the sources. Their
  functions are parameters of the model: each field gives the collaborator's answer to a
  request. \<^verbatim>\<open>platform.TryPool\<close> answers found, id, ip and error; \<^verbatim>\<open>platform.PoolCountFree\<close>
  answers the number of free instances of the pool, a Go \<^verbatim>\<open>int\<close>, and an error; \<open>fmt_q\<close> is
  the \<^verbatim>\<open>%q\<close> verb of package \<^verbatim>\<open>fmt\<close>.
\<close>

record env =
  platform_TryPool :: "Credentials \<Rightarrow> string \<Rightarrow> bool \<times> string \<times> string \<times> error option"
  platform_Create :: "Credentials \<Rightarrow> ProvisionArgs \<Rightarrow> error + PInstance"
  platform_Destroy :: "Credentials \<Rightarrow> PInstance \<Rightarrow> error option"
  platform_PoolCountFree :: "Credentials \<Rightarrow> string \<Rightarrow> int \<times> error option"
  platform_Ping :: "Credentials \<Rightarrow> error option"
  ssh_DialRetry :: "string \<Rightarrow> string \<Rightarrow> string \<Rightarrow> error option"
  ssh_Dial :: "string \<Rightarrow> string \<Rightarrow> string \<Rightarrow> error option"
  sftp_NewClient :: "error option"
  sftp_MkdirAll :: "string \<Rightarrow> error option"
  sftp_Chmod :: "string \<Rightarrow> 32 word \<Rightarrow> error option"
  sftp_Create :: "string \<Rightarrow> error option"
  file_Write :: "string \<Rightarrow> string \<Rightarrow> error option"
  file_Chmod :: "string \<Rightarrow> 32 word \<Rightarrow> error option"
  client_NewSession :: "error option"
  session_Run :: "string \<Rightarrow> error option"
  session_Race :: "string \<Rightarrow> outcome"
  fmt_q :: "string \<Rightarrow> string"

text \<open>What an engine call is seen to do: its requests to package \<^verbatim>\<open>platform\<close>, and every
  entry into \<^verbatim>\<open>Setup\<close> with the spec it is given.\<close>

datatype event =
    Setup_enter Spec
  | TryPool_call Credentials string
  | Create_call Credentials ProvisionArgs
  | Destroy_call Credentials PInstance
  | PoolCountFree_call Credentials string

definition engine_New :: "Opts \<Rightarrow> Engine \<times> error option" where
  "engine_New opt = (\<lparr> opts = opt \<rparr>, None)"

definition creds_of :: "Spec \<Rightarrow> Credentials" where
  "creds_of spec =
     \<lparr> c_Client = AccessKeyID (Account spec), c_Secret = AccessKeySecret (Account spec),
       c_Region = Region (Account spec) \<rparr>"

subsection \<open>Staging helpers\<close>

definition engine_upload :: "env \<Rightarrow> string \<Rightarrow> string \<Rightarrow> 32 word \<Rightarrow> error option" where
  "engine_upload ev path data mode =
     (case sftp_Create ev path of
        Some err \<Rightarrow> Some err
      | None \<Rightarrow>
          (case file_Write ev path data of
             Some err \<Rightarrow> Some err
           | None \<Rightarrow>
               (case file_Chmod ev path mode of
                  Some err \<Rightarrow> Some err
                | None \<Rightarrow> None)))"

definition mkdir :: "env \<Rightarrow> string \<Rightarrow> 32 word \<Rightarrow> error option" where
  "mkdir ev path mode =
     (case sftp_MkdirAll ev path of
        Some err \<Rightarrow> Some err
      | None \<Rightarrow> sftp_Chmod ev path mode)"

text \<open>The three staging loops of \<^verbatim>\<open>Setup\<close>; each stops at the first error.\<close>

fun make_folders :: "env \<Rightarrow> File list \<Rightarrow> error option" where
  "make_folders ev [] = None"
| "make_folders ev (file # files) =
     (if \<not> IsDir file then make_folders ev files
      else case mkdir ev (Path file) (Mode file) of
             Some err \<Rightarrow> Some err
           | None \<Rightarrow> make_folders ev files)"

fun upload_files :: "env \<Rightarrow> File list \<Rightarrow> error option" where
  "upload_files ev [] = None"
| "upload_files ev (file # files) =
     (if IsDir file then upload_files ev files
      else case engine_upload ev (Path file) (Data file) (Mode file) of
             Some err \<Rightarrow> Some err
           | None \<Rightarrow> upload_files ev files)"

fun make_volumes :: "env \<Rightarrow> Volume list \<Rightarrow> error option" where
  "make_volumes ev [] = None"
| "make_volumes ev (volume # volumes) =
     (if emptydir_ID (EmptyDir volume) \<noteq> '''' then
        (case mkdir ev (emptydir_ID (EmptyDir volume)) 511 of
           Some err \<Rightarrow> Some err
         | None \<Rightarrow> make_volumes ev volumes)
      else make_volumes ev volumes)"

subsection \<open>Setup\<close>

text \<open>The stages of \<^verbatim>\<open>Setup\<close> that follow the creation of the instance: connect, stage the
  workspace, create the container network. The wait for the container runtime takes time
  only and is left out.\<close>

definition stage :: "env \<Rightarrow> Spec \<Rightarrow> error option" where
  "stage ev spec =
     (case ssh_DialRetry ev (IP (Instance spec)) (User (Instance spec)) (PrivateKey (Instance spec)) of
        Some err \<Rightarrow> Some err
      | None \<Rightarrow>
     (case sftp_NewClient ev of
        Some err \<Rightarrow> Some err
      | None \<Rightarrow>
     (case mkdir ev (Root spec) 511 of
        Some err \<Rightarrow> Some err
      | None \<Rightarrow>
     (case make_folders ev (Files spec) of
        Some err \<Rightarrow> Some err
      | None \<Rightarrow>
     (case upload_files ev (Files spec) of
        Some err \<Rightarrow> Some err
      | None \<Rightarrow>
     (case make_volumes ev (Volumes spec) of
        Some err \<Rightarrow> Some err
      | None \<Rightarrow>
     (case client_NewSession ev of
        Some err \<Rightarrow> Some err
      | None \<Rightarrow>
     (let networkCommand =
            (if OS (Platform spec) = ''windows''
             then ''docker network create --driver nat myNetwork''
             else ''docker network create myNetwork'')
      in case session_Run ev networkCommand of
           Some err \<Rightarrow> Some err
         | None \<Rightarrow> None))))))))"

text \<open>
  The part of \<^verbatim>\<open>Setup\<close> from the comment \<^verbatim>\<open>add some tags\<close> on: the creation of an ad-hoc
  instance, in the three blocks of the source. \<^verbatim>\<open>awsTags\<close> is the spec's own map, so the
  writes of the first block change the spec, and the provisioning arguments carry the same map.
  When the map is nil, the first write is a run-time fault.
\<close>

definition add_tags :: "Engine \<Rightarrow> Spec \<Rightarrow> fault + Spec" where
  "add_tags e spec =
     (case Tags (Instance spec) of
        None \<Rightarrow> Inl NilMapWrite
      | Some awsTags \<Rightarrow>
          (let awsTags = awsTags(''drone'' \<mapsto> ''drone-runner-aws'');
               awsTags = awsTags(''pool'' \<mapsto> PoolName spec);
               awsTags = awsTags(''creator'' \<mapsto> RunnerName (opts e));
               awsTags = (if UsePool (Instance spec)
                          then awsTags(''status'' \<mapsto> ''build in progress'') else awsTags)
           in Inr (spec\<lparr>Instance := (Instance spec)\<lparr>Tags := Some awsTags\<rparr>\<rparr>)))"

definition provision_args :: "Spec \<Rightarrow> ProvisionArgs" where
  "provision_args spec =
     \<lparr> p_Image = AMI (Instance spec),
       p_IamProfileArn = IAMProfileARN (Instance spec),
       p_Name = User (Instance spec),
       p_Size = Type (Instance spec),
       p_Region = Region (Account spec),
       p_Userdata = UserData (Instance spec),
       p_Tags = Tags (Instance spec),
       p_Subnet = SubnetID (Network (Instance spec)),
       p_Groups = SecurityGroups (Network (Instance spec)),
       p_Device = Name (Device (Instance spec)),
       p_PrivateIP = PrivateIP (Network (Instance spec)),
       p_VolumeType = disk_Type (Disk (Instance spec)),
       p_VolumeSize = Size (Disk (Instance spec)),
       p_VolumeIops = Iops (Disk (Instance spec)) \<rparr>"

text \<open>The result is a fault, or the error, the spec as the caller finds it afterwards, and the
  requests made.\<close>

definition adhoc :: "Engine \<Rightarrow> env \<Rightarrow> Spec \<Rightarrow> fault + (error option \<times> Spec \<times> event list)" where
  "adhoc e ev spec =
     (let creds = creds_of spec in
      case add_tags e spec of
        Inl f \<Rightarrow> Inl f
      | Inr spec \<Rightarrow>
          (let provArgs = provision_args spec
           in case platform_Create ev creds provArgs of
                Inl createErr \<Rightarrow> Inr (Some createErr, spec, [Create_call creds provArgs])
              | Inr instance \<Rightarrow>
                  (let spec = spec\<lparr>Instance := (Instance spec)\<lparr>ID := i_ID instance, IP := i_IP instance\<rparr>\<rparr>
                   in Inr (stage ev spec, spec, [Create_call creds provArgs]))))"

definition Setup :: "Engine \<Rightarrow> env \<Rightarrow> Spec \<Rightarrow> fault + (error option \<times> Spec \<times> event list)" where
  "Setup e ev spec =
     (let creds = creds_of spec in
      if UsePool (Instance spec) then
        (case platform_TryPool ev creds (PoolName spec) of
           (found, ident, ip, poolErr) \<Rightarrow>
             if found then
               Inr (None, spec\<lparr>Instance := (Instance spec)\<lparr>ID := ident, IP := ip\<rparr>\<rparr>,
                    [Setup_enter spec, TryPool_call creds (PoolName spec)])
             else
               (case adhoc e ev spec of
                  Inl f \<Rightarrow> Inl f
                | Inr (err, spec1, calls) \<Rightarrow>
                    Inr (err, spec1,
                         [Setup_enter spec, TryPool_call creds (PoolName spec)] @ calls)))
      else
        (case adhoc e ev spec of
           Inl f \<Rightarrow> Inl f
         | Inr (err, spec1, calls) \<Rightarrow> Inr (err, spec1, [Setup_enter spec] @ calls)))"

subsection \<open>Destroy\<close>

text \<open>
  \<^verbatim>\<open>e.opts.Pools[name]\<close> of a name that is not in the map is the zero \<^verbatim>\<open>Pool\<close>: size 0 and a
  nil template. \<^verbatim>\<open>Setup\<close> reads a field of the spec it is given in its first statement, so
  on a nil template it ends in a run-time fault. The free count is a Go \<^verbatim>\<open>int\<close> and is
  compared as such. The replenishing \<^verbatim>\<open>Setup\<close> writes into the pool's template, which the
  engine returned holds.
\<close>

definition pool_size :: "Engine \<Rightarrow> string \<Rightarrow> int" where
  "pool_size e name = (case Pools (opts e) name of None \<Rightarrow> 0 | Some pool \<Rightarrow> PoolSize pool)"

definition Destroy :: "Engine \<Rightarrow> env \<Rightarrow> Spec \<Rightarrow> fault + (error option \<times> Engine \<times> event list)" where
  "Destroy e ev spec =
     (let creds = creds_of spec;
          instance = \<lparr> i_ID = ID (Instance spec), i_IP = IP (Instance spec) \<rparr>
      in case platform_Destroy ev creds instance of
           Some err \<Rightarrow> Inr (Some err, e, [Destroy_call creds instance])
         | None \<Rightarrow>
             if UsePool (Instance spec) then
               (case platform_PoolCountFree ev creds (PoolName spec) of
                  (poolCount, countPoolErr) \<Rightarrow>
                    if poolCount < pool_size e (PoolName spec) then
                      (case Pools (opts e) (PoolName spec) of
                         None \<Rightarrow> Inl NilDereference
                       | Some pool \<Rightarrow>
                           (case InstanceSpec pool of
                              None \<Rightarrow> Inl NilDereference
                            | Some template \<Rightarrow>
                                (case Setup e ev template of
                                   Inl f \<Rightarrow> Inl f
                                 | Inr (createInstanceErr, template1, calls) \<Rightarrow>
                                     Inr (None,
                                          e\<lparr>opts := (opts e)\<lparr>Pools := (Pools (opts e))
                                              (PoolName spec \<mapsto>
                                                 pool\<lparr>InstanceSpec := Some template1\<rparr>)\<rparr>\<rparr>,
                                          [Destroy_call creds instance,
                                           PoolCountFree_call creds (PoolName spec)] @ calls))))
                    else
                      Inr (None, e,
                           [Destroy_call creds instance, PoolCountFree_call creds (PoolName spec)]))
             else Inr (None, e, [Destroy_call creds instance]))"

subsection \<open>Run\<close>

definition writeWorkdir :: "string \<Rightarrow> string" where
  "writeWorkdir path = ''cd '' @ path @ [LF]"

definition writeEnv :: "env \<Rightarrow> string \<Rightarrow> string \<Rightarrow> string \<Rightarrow> string" where
  "writeEnv ev os k v =
     (if os = ''windows'' then ''$Env:'' @ k @ '' = '' @ fmt_q ev v @ [LF]
      else ''export '' @ k @ ''='' @ fmt_q ev v @ [LF])"

definition writeSecrets :: "env \<Rightarrow> string \<Rightarrow> Secret list \<Rightarrow> string" where
  "writeSecrets ev os secrets = concat (map (\<lambda>s. writeEnv ev os (Env s) (secret_Data s)) secrets)"

definition writeEnviron :: "env \<Rightarrow> string \<Rightarrow> (string, string) mapping \<Rightarrow> string" where
  "writeEnviron ev os envs =
     concat (map (\<lambda>k. writeEnv ev os k (Mapping.lookup_default [] envs k))
                 (Mapping.ordered_keys envs))"

text \<open>The loop of \<^verbatim>\<open>Run\<close> over the files of the step: each script is uploaded with the
  working directory, the secrets and the environment written in front of it.\<close>

fun upload_scripts :: "env \<Rightarrow> Spec \<Rightarrow> Step \<Rightarrow> File list \<Rightarrow> error option" where
  "upload_scripts ev spec step [] = None"
| "upload_scripts ev spec step (file # files) =
     (let w = writeWorkdir (WorkingDir step)
            @ writeSecrets ev (OS (Platform spec)) (Secrets step)
            @ writeEnviron ev (OS (Platform spec)) (Envs step)
            @ Data file
      in case engine_upload ev (Path file) w (Mode file) of
           Some err \<Rightarrow> Some err
         | None \<Rightarrow> upload_scripts ev spec step files)"

text \<open>\<^verbatim>\<open>strings.Join(args, " ")\<close>.\<close>

fun Join :: "string list \<Rightarrow> string" where
  "Join [] = ''''"
| "Join [a] = a"
| "Join (a # b # as) = a @ '' '' @ Join (b # as)"

text \<open>\<^verbatim>\<open>Run\<close> returns a state, or none for Go's nil pointer, and an error.\<close>

definition Run :: "env \<Rightarrow> Spec \<Rightarrow> Step \<Rightarrow> State option \<times> error option" where
  "Run ev spec step =
     (case ssh_Dial ev (IP (Instance spec)) (User (Instance spec)) (PrivateKey (Instance spec)) of
        Some err \<Rightarrow> (None, Some err)
      | None \<Rightarrow>
     (case sftp_NewClient ev of
        Some err \<Rightarrow> (None, Some err)
      | None \<Rightarrow>
     (case upload_scripts ev spec step (step_Files step) of
        Some err \<Rightarrow> (None, Some err)
      | None \<Rightarrow>
     (case client_NewSession ev of
        Some err \<Rightarrow> (None, Some err)
      | None \<Rightarrow>
     (let cmd = Command step @ '' '' @ Join (Args step)
      in case session_Race ev cmd of
           Cancelled ctxErr \<Rightarrow> (None, Some ctxErr)
         | Done err \<Rightarrow>
             (let state = \<lparr> ExitCode = 0, Exited = True, OOMKilled = False \<rparr>;
                  state = (if err \<noteq> None then state\<lparr>ExitCode := 255\<rparr> else state);
                  state = (case err of
                             Some (ExitError status) \<Rightarrow> state\<lparr>ExitCode := status\<rparr>
                           | _ \<Rightarrow> state)
              in (Some state, err)))))))"

definition Ping :: "env \<Rightarrow> string \<Rightarrow> string \<Rightarrow> string \<Rightarrow> error option" where
  "Ping ev accessKeyID accessKeySecret region =
     platform_Ping ev \<lparr> c_Client = accessKeyID, c_Secret = accessKeySecret, c_Region = region \<rparr>"

text \<open>The specs with which \<^verbatim>\<open>Setup\<close> was entered, in order.\<close>

fun setups :: "event list \<Rightarrow> Spec list" where
  "setups [] = []"
| "setups (Setup_enter spec # es) = spec # setups es"
| "setups (TryPool_call c n # es) = setups es"
| "setups (Create_call c a # es) = setups es"
| "setups (Destroy_call c i # es) = setups es"
| "setups (PoolCountFree_call c n # es) = setups es"

text \<open>The requests to create an instance, in order.\<close>

fun creates :: "event list \<Rightarrow> ProvisionArgs list" where
  "creates [] = []"
| "creates (Setup_enter spec # es) = creates es"
| "creates (TryPool_call c n # es) = creates es"
| "creates (Create_call c a # es) = a # creates es"
| "creates (Destroy_call c i # es) = creates es"
| "creates (PoolCountFree_call c n # es) = creates es"

subsection \<open>Concrete collaborators and inputs\<close>

text \<open>A collaborator that finds no pooled instance, counts no free instance and lets every
  other request succeed; variants of it answer one request differently.\<close>

definition env_ok :: env where
  "env_ok =
     \<lparr> platform_TryPool = (\<lambda>c n. (False, '''', '''', None)),
       platform_Create = (\<lambda>c a. Inr \<lparr> i_ID = ''i-1'', i_IP = ''10.0.0.1'' \<rparr>),
       platform_Destroy = (\<lambda>c i. None),
       platform_PoolCountFree = (\<lambda>c n. (0, None)),
       platform_Ping = (\<lambda>c. None),
       ssh_DialRetry = (\<lambda>ip user k. None),
       ssh_Dial = (\<lambda>ip user k. None),
       sftp_NewClient = None,
       sftp_MkdirAll = (\<lambda>path. None),
       sftp_Chmod = (\<lambda>path mode. None),
       sftp_Create = (\<lambda>path. None),
       file_Write = (\<lambda>path data. None),
       file_Chmod = (\<lambda>path mode. None),
       client_NewSession = None,
       session_Run = (\<lambda>cmd. None),
       session_Race = (\<lambda>cmd. Done None),
       fmt_q = (\<lambda>s. s) \<rparr>"

definition race_ends :: "error option \<Rightarrow> string \<Rightarrow> outcome" where
  "race_ends r cmd = Done r"

definition pool_error :: "Credentials \<Rightarrow> string \<Rightarrow> bool \<times> string \<times> string \<times> error option" where
  "pool_error c n = (False, '''', '''', Some (Error ''describe instances failed''))"

definition spec0 :: Spec where
  "spec0 =
     \<lparr> Account = \<lparr> AccessKeyID = ''id'', AccessKeySecret = ''secret'', Region = ''us-east-2'' \<rparr>,
       Instance =
         \<lparr> AMI = ''ami-1'', IAMProfileARN = '''', User = ''ubuntu'', PrivateKey = ''key'',
           Type = ''t3.nano'', UserData = '''', Tags = Some [''team'' \<mapsto> ''ci''],
           Network = \<lparr> SubnetID = ''subnet-1'', SecurityGroups = [''sg-1''], PrivateIP = False \<rparr>,
           Device = \<lparr> Name = ''/dev/sda1'' \<rparr>,
           Disk = \<lparr> disk_Type = ''gp2'', Size = 32, Iops = 0 \<rparr>,
           UsePool = True, ID = '''', IP = '''' \<rparr>,
       PoolName = ''ubuntu'', Root = ''/tmp/aws'', Files = [], Volumes = [],
       Platform = \<lparr> OS = ''linux'' \<rparr> \<rparr>"

definition step0 :: Step where
  "step0 =
     \<lparr> step_Files = [], WorkingDir = ''/tmp/aws'', Secrets = [], Envs = Mapping.empty,
       Command = ''sh'', Args = [''-c'', ''exit 17''] \<rparr>"

definition engine0 :: Engine where
  "engine0 =
     \<lparr> opts = \<lparr> RunnerName = ''runner'',
                Pools = [''ubuntu'' \<mapsto> \<lparr> InstanceSpec = Some spec0, PoolSize = 1 \<rparr>] \<rparr> \<rparr>"

text \<open>A reservation that finds an instance and reports an error with it; a negative free
  count; the spec above with a nil tag map, with the name of a pool that is not configured,
  and as the template of the pool of an engine.\<close>

definition pool_found_error :: "Credentials \<Rightarrow> string \<Rightarrow> bool \<times> string \<times> string \<times> error option" where
  "pool_found_error c n = (True, ''i-7'', ''10.0.0.7'', Some (Error ''create tags failed''))"

definition count_negative :: "Credentials \<Rightarrow> string \<Rightarrow> int \<times> error option" where
  "count_negative c n = (- 1, None)"

definition spec_nil_tags :: Spec where
  "spec_nil_tags = spec0\<lparr>Instance := (Instance spec0)\<lparr>Tags := None\<rparr>\<rparr>"

definition spec_other_pool :: Spec where
  "spec_other_pool = spec0\<lparr>PoolName := ''other''\<rparr>"

definition engine_nil_tags :: Engine where
  "engine_nil_tags =
     \<lparr> opts = \<lparr> RunnerName = ''runner'',
                Pools = [''ubuntu'' \<mapsto> \<lparr> InstanceSpec = Some spec_nil_tags, PoolSize = 1 \<rparr>] \<rparr> \<rparr>"

text \<open>States of a writer with key \<open>k\<close>: after \<open>abc\<close>, \<open>def\<close> and \<open>ghi\<close> were written under
  limit 7; after an eight-byte line was written under limit 10; and after a six-byte line
  was written under limit 10.\<close>

definition b_evicted :: Writer where
  "b_evicted =
     \<lparr> client = [Open_call ''k''], key = ''k'', num = 3, now = 0, size' = 6, limit = 7,
       interval = Second,
       pending = [\<lparr>Number = 0, Message = ''abc'', Timestamp = 0, Level = ''info''\<rparr>,
                  \<lparr>Number = 1, Message = ''def'', Timestamp = 0, Level = ''info''\<rparr>],
       history = [\<lparr>Number = 1, Message = ''def'', Timestamp = 0, Level = ''info''\<rparr>,
                  \<lparr>Number = 2, Message = ''ghi'', Timestamp = 0, Level = ''info''\<rparr>],
       closed = True, ready = True \<rparr>"

definition b_full :: Writer where
  "b_full =
     \<lparr> client = [Open_call ''k''], key = ''k'', num = 1, now = 0, size' = 8, limit = 10,
       interval = Second,
       pending = [\<lparr>Number = 0, Message = ''aaaaaaa\<newline>'', Timestamp = 0, Level = ''info''\<rparr>],
       history = [\<lparr>Number = 0, Message = ''aaaaaaa\<newline>'', Timestamp = 0, Level = ''info''\<rparr>],
       closed = False, ready = True \<rparr>"

definition b_six :: Writer where
  "b_six =
     \<lparr> client = [Open_call ''k''], key = ''k'', num = 1, now = 0, size' = 6, limit = 10,
       interval = Second,
       pending = [\<lparr>Number = 0, Message = ''aaaaa\<newline>'', Timestamp = 0, Level = ''info''\<rparr>],
       history = [\<lparr>Number = 0, Message = ''aaaaa\<newline>'', Timestamp = 0, Level = ''info''\<rparr>],
       closed = False, ready = True \<rparr>"

section \<open>Properties of the log stream writer\<close>

subsection \<open>The eviction loop and one round of Write\<close>


declare evict.simps [simp del]

lemma total_len_simps [simp]:
  "total_len [] = 0"
  "total_len (l # ls) = int (length (Message l)) + total_len ls"
  "total_len (xs @ ys) = total_len xs + total_len ys"
  by (simp_all add: total_len_def)

lemma total_len_nonneg: "0 \<le> total_len ls"
  by (induction ls) simp_all

lemma evict_Inr:
  "evict n b = Inr b' \<Longrightarrow>
     \<exists>dropped kept. history b = dropped @ kept \<and>
        b' = b\<lparr>closed := closed b \<or> dropped \<noteq> [], size' := size' b - total_len dropped,
               history := kept\<rparr> \<and>
        size' b - total_len dropped + int n \<le> limit b \<and>
        (dropped = [] \<or> limit b < size' b - total_len (butlast dropped) + int n)"
proof (induction n b arbitrary: b' rule: evict.induct)
  case (1 n b)
  show ?case
  proof (cases "size' b + int n > limit b")
    case False
    with "1.prems" have "b' = b" by (simp add: evict.simps)
    with False show ?thesis by (intro exI [of _ "[]"] exI [of _ "history b"]) simp
  next
    case True
    define b1 where "b1 = snd (stop b)"
    have b1: "b1 = b\<lparr>closed := True\<rparr>" by (simp add: b1_def stop_def)
    from True "1.prems" obtain l ls where h: "history b1 = l # ls"
      and ev: "evict n (b1\<lparr>size' := size' b1 - int (length (Message l)), history := ls\<rparr>) = Inr b'"
      by (subst (asm) evict.simps) (auto simp: b1_def Let_def split: list.splits)
    from "1.IH" [OF True b1_def h ev]
    obtain dropped kept where d: "ls = dropped @ kept"
      "b' = b\<lparr>closed := True, size' := size' b - int (length (Message l)) - total_len dropped,
               history := kept\<rparr>"
      "size' b - int (length (Message l)) - total_len dropped + int n \<le> limit b"
      "dropped = [] \<or> limit b < size' b - int (length (Message l)) - total_len (butlast dropped) + int n"
      by (auto simp: b1)
    have hb: "history b = (l # dropped) @ kept" using h d(1) by (simp add: b1)
    have c2: "b' = b\<lparr>closed := closed b \<or> l # dropped \<noteq> [],
                 size' := size' b - total_len (l # dropped), history := kept\<rparr>"
      using d(2) by (simp add: algebra_simps)
    have c3: "size' b - total_len (l # dropped) + int n \<le> limit b" using d(3) by simp
    have c4: "l # dropped = [] \<or> limit b < size' b - total_len (butlast (l # dropped)) + int n"
      using d(4) True by auto
    from hb c2 c3 c4 show ?thesis by blast
  qed
qed

lemma evict_Inl:
  "evict n b = Inl f \<Longrightarrow> f = IndexOutOfRange \<and> limit b < size' b - total_len (history b) + int n"
proof (induction n b rule: evict.induct)
  case (1 n b)
  show ?case
  proof (cases "size' b + int n > limit b")
    case False
    with "1.prems" show ?thesis by (simp add: evict.simps)
  next
    case True
    define b1 where "b1 = snd (stop b)"
    have b1: "b1 = b\<lparr>closed := True\<rparr>" by (simp add: b1_def stop_def)
    show ?thesis
    proof (cases "history b")
      case Nil
      with True "1.prems" show ?thesis
        by (subst (asm) evict.simps) (auto simp: stop_def Let_def split: if_splits)
    next
      case (Cons l ls)
      then have h: "history b1 = l # ls" by (simp add: b1)
      from True "1.prems" h
      have ev: "evict n (b1\<lparr>size' := size' b1 - int (length (Message l)), history := ls\<rparr>) = Inl f"
        by (subst (asm) evict.simps) (auto simp: b1_def Let_def)
      from "1.IH" [OF True b1_def h ev] Cons show ?thesis by (simp add: b1)
    qed
  qed
qed

lemma write_part_Inr:
  assumes "write_part tm n b part = Inr b'"
  shows "\<exists>dropped kept. history b = dropped @ kept \<and>
           size' b - total_len dropped + int n \<le> limit b \<and>
           (dropped = [] \<or> limit b < size' b - total_len (butlast dropped) + int n) \<and>
           b' = b\<lparr>size' := size' b - total_len dropped + int (length part),
                  num := num b + 1,
                  closed := closed b \<or> dropped \<noteq> [],
                  pending := (if closed b \<or> dropped \<noteq> [] then pending b
                              else pending b @ [new_line tm b part]),
                  history := kept @ [new_line tm b part]\<rparr>"
proof -
  from assms obtain b1 where ev: "evict n b = Inr b1"
    by (auto simp: write_part_def Let_def split: sum.splits)
  from evict_Inr [OF ev] obtain dropped kept where d:
    "history b = dropped @ kept"
    "b1 = b\<lparr>closed := closed b \<or> dropped \<noteq> [], size' := size' b - total_len dropped,
               history := kept\<rparr>"
    "size' b - total_len dropped + int n \<le> limit b"
    "dropped = [] \<or> limit b < size' b - total_len (butlast dropped) + int n"
    by blast
  have c4: "b' = b\<lparr>size' := size' b - total_len dropped + int (length part),
                  num := num b + 1,
                  closed := closed b \<or> dropped \<noteq> [],
                  pending := (if closed b \<or> dropped \<noteq> [] then pending b
                              else pending b @ [new_line tm b part]),
                  history := kept @ [new_line tm b part]\<rparr>"
    using assms unfolding write_part_def ev d(2)
    by (auto simp: Let_def stopped_def new_line_def)
  from d(1,3,4) c4 show ?thesis by blast
qed

lemma write_part_Inl:
  "write_part tm n b part = Inl f \<Longrightarrow> f = IndexOutOfRange \<and> limit b < size' b - total_len (history b) + int n"
  by (auto simp: write_part_def Let_def split: sum.splits dest: evict_Inl)


subsection \<open>split\<close>

lemma SplitAfterLF_nonempty: "SplitAfterLF s \<noteq> []"
  by (induction s) simp_all

lemma concat_SplitAfterLF: "concat (SplitAfterLF s) = s"
proof (induction s)
  case Nil
  show ?case by simp
next
  case (Cons c cs)
  obtain x xs where x: "SplitAfterLF cs = x # xs"
    using SplitAfterLF_nonempty [of cs] by (cases "SplitAfterLF cs") auto
  have "concat (SplitAfterLF (c # cs)) = c # concat (SplitAfterLF cs)"
    by (simp add: x)
  then show ?case by (simp only: Cons.IH)
qed

lemma length_le_concat: "x \<in> set xs \<Longrightarrow> length x \<le> length (concat xs)"
  by (induction xs) auto

lemma split_part_le: "part \<in> set (split p) \<Longrightarrow> length part \<le> length p"
  using length_le_concat [of part "SplitAfterLF p"]
  by (auto simp: split_def concat_SplitAfterLF split: if_splits)

subsection \<open>Invariants\<close>

lemma lines_from_append:
  "lines_from tm k (ms @ [m]) =
     lines_from tm k ms @
       [\<lparr> Number = k + int (length ms), Message = m, Timestamp = tm (k + int (length ms)),
          Level = ''info'' \<rparr>]"
  by (induction ms arbitrary: k) (simp_all add: algebra_simps)

lemma inv_ready [simp]:
  "hist_inv tm msgs (b\<lparr>ready := x\<rparr>) = hist_inv tm msgs b"
  "pend_inv (b\<lparr>ready := x\<rparr>) = pend_inv b"
  by (simp_all add: hist_inv_def pend_inv_def)

lemma write_part_hist_inv:
  assumes "write_part tm n b part = Inr b'" and "hist_inv tm msgs b"
  shows "hist_inv tm (msgs @ [part]) b'"
proof -
  from write_part_Inr [OF assms(1)] obtain dropped kept where d:
    "history b = dropped @ kept"
    "b' = b\<lparr>size' := size' b - total_len dropped + int (length part),
                  num := num b + 1,
                  closed := closed b \<or> dropped \<noteq> [],
                  pending := (if closed b \<or> dropped \<noteq> [] then pending b
                              else pending b @ [new_line tm b part]),
                  history := kept @ [new_line tm b part]\<rparr>"
    by blast
  from assms(2) obtain ev where ev: "lines_from tm 0 msgs = ev @ history b"
    and n: "num b = int (length msgs)" and c: "closed b \<or> history b = lines_from tm 0 msgs"
    unfolding hist_inv_def by blast
  have nl: "lines_from tm 0 (msgs @ [part]) = lines_from tm 0 msgs @ [new_line tm b part]"
    by (simp add: lines_from_append new_line_def n)
  have "lines_from tm 0 (msgs @ [part]) = (ev @ dropped) @ history b'"
    by (simp add: nl ev d)
  moreover have "num b' = int (length (msgs @ [part]))" by (simp add: d(2) n)
  moreover have "closed b' \<or> history b' = lines_from tm 0 (msgs @ [part])"
    using c d(1) by (auto simp: d(2) nl)
  ultimately show ?thesis unfolding hist_inv_def by blast
qed

lemma write_part_pend_inv:
  assumes "write_part tm n b part = Inr b'" and "pend_inv b" and "length part \<le> n"
  shows "pend_inv b'"
proof -
  from write_part_Inr [OF assms(1)] obtain dropped kept where d:
    "size' b - total_len dropped + int n \<le> limit b"
    "b' = b\<lparr>size' := size' b - total_len dropped + int (length part),
                  num := num b + 1,
                  closed := closed b \<or> dropped \<noteq> [],
                  pending := (if closed b \<or> dropped \<noteq> [] then pending b
                              else pending b @ [new_line tm b part]),
                  history := kept @ [new_line tm b part]\<rparr>"
    by blast
  show ?thesis
    using assms(2,3) d(1) by (auto simp: pend_inv_def d(2) new_line_def)
qed

lemma write_part_frame:
  assumes "write_part tm n b part = Inr b'"
  shows "limit b' = limit b \<and> key b' = key b \<and> client b' = client b"
  using write_part_Inr [OF assms] by auto

lemma write_parts_inv:
  assumes "write_parts tm n b parts = Inr b'" and "hist_inv tm msgs b" and "pend_inv b"
    and "\<forall>part\<in>set parts. length part \<le> n"
  shows "hist_inv tm (msgs @ parts) b' \<and> pend_inv b' \<and> limit b' = limit b \<and> key b' = key b
     \<and> client b' = client b"
  using assms
proof (induction parts arbitrary: b msgs)
  case Nil
  then show ?case by simp
next
  case (Cons part parts)
  from Cons.prems(1) obtain b1 where b1: "write_part tm n b part = Inr b1"
    and rest: "write_parts tm n b1 parts = Inr b'"
    by (auto split: sum.splits)
  have h1: "hist_inv tm (msgs @ [part]) b1"
    using write_part_hist_inv [OF b1 Cons.prems(2)] .
  have p1: "pend_inv b1"
    using write_part_pend_inv [OF b1 Cons.prems(3)] Cons.prems(4) by simp
  from Cons.IH [OF rest h1 p1] Cons.prems(4) write_part_frame [OF b1]
  show ?case by simp
qed

lemma Write_inv:
  assumes "Write tm p b = Inr (r, b')" and "hist_inv tm msgs b" and "pend_inv b"
  shows "hist_inv tm (msgs @ split p) b' \<and> pend_inv b' \<and> limit b' = limit b \<and> key b' = key b
     \<and> client b' = client b \<and> r = (int (length p), None)"
proof -
  from assms(1) obtain b1 where b1: "write_parts tm (length p) b (split p) = Inr b1"
    and b': "b' = b1\<lparr>ready := True\<rparr>" and r: "r = (int (length p), None)"
    by (auto simp: Write_def split: sum.splits)
  from write_parts_inv [OF b1 assms(2,3)] split_part_le
  have "hist_inv tm (msgs @ split p) b1 \<and> pend_inv b1 \<and> limit b1 = limit b \<and> key b1 = key b
     \<and> client b1 = client b" by blast
  then show ?thesis by (simp add: b' r)
qed

lemma flush_inv:
  assumes "hist_inv tm msgs b" and "pend_inv b"
  shows "hist_inv tm msgs (snd (flush r b)) \<and> pend_inv (snd (flush r b))
     \<and> limit (snd (flush r b)) = limit b \<and> key (snd (flush r b)) = key b"
  using assms by (auto simp: flush_def Let_def copy_def clear_def hist_inv_def pend_inv_def)

lemma Close_inv:
  assumes "hist_inv tm msgs b" and "pend_inv b"
  shows "hist_inv tm msgs (snd (Close enc rb ru rc b)) \<and> pend_inv (snd (Close enc rb ru rc b))
     \<and> limit (snd (Close enc rb ru rc b)) = limit b \<and> key (snd (Close enc rb ru rc b)) = key b"
  using assms
  by (auto simp: Close_def stop_def upload_def flush_def Let_def copy_def clear_def
      hist_inv_def pend_inv_def split: sum.splits prod.splits if_splits)

lemma exec_inv:
  assumes "exec tm enc b x = Inr b'" and "hist_inv tm msgs b" and "pend_inv b"
  shows "hist_inv tm (msgs @ parts_of x) b' \<and> pend_inv b' \<and> limit b' = limit b \<and> key b' = key b"
proof (cases x)
  case (OpWrite p)
  with assms(1) obtain r where "Write tm p b = Inr (r, b')"
    by (cases "Write tm p b") auto
  from Write_inv [OF this assms(2,3)] OpWrite show ?thesis by simp
next
  case (OpFlush r)
  with assms flush_inv [OF assms(2,3), of r] show ?thesis by auto
next
  case (OpClose rb ru rc)
  with assms Close_inv [OF assms(2,3), of enc rb ru rc] show ?thesis by auto
qed

lemma run_inv:
  assumes "run tm enc b xs = Inr b'" and "hist_inv tm msgs b" and "pend_inv b"
  shows "hist_inv tm (msgs @ concat (map parts_of xs)) b' \<and> pend_inv b' \<and> limit b' = limit b
     \<and> key b' = key b"
  using assms
proof (induction xs arbitrary: b msgs)
  case Nil
  then show ?case by simp
next
  case (Cons x xs)
  from Cons.prems(1) obtain b1 where b1: "exec tm enc b x = Inr b1"
    and rest: "run tm enc b1 xs = Inr b'"
    by (auto split: sum.splits)
  from exec_inv [OF b1 Cons.prems(2,3)]
  have i1: "hist_inv tm (msgs @ parts_of x) b1" "pend_inv b1" "limit b1 = limit b" "key b1 = key b"
    by simp_all
  from Cons.IH [OF rest i1(1,2)] i1(3,4) show ?case by simp
qed

lemma New_inv:
  "hist_inv tm [] (SetLimit L (New cl k t)) \<and> pend_inv (SetLimit L (New cl k t))"
  by (simp add: hist_inv_def pend_inv_def SetLimit_def New_def)

lemma Close_cases:
  "Close enc rb ru rc b =
     (case encode_history enc (history b) [] of
        Inl err \<Rightarrow>
          (Some err,
           b\<lparr>closed := True, pending := (if closed b then pending b else []),
             client := client b
               @ (if closed b \<or> pending b = [] then [] else [Batch_call (key b) (pending b)])
               @ [Close_call (key b)]\<rparr>)
      | Inr data \<Rightarrow>
          (ru,
           b\<lparr>closed := True, pending := (if closed b then pending b else []),
             client := client b
               @ (if closed b \<or> pending b = [] then [] else [Batch_call (key b) (pending b)])
               @ [Upload_call (key b) data, Close_call (key b)]\<rparr>))"
  by (auto simp: Close_def stop_def upload_def flush_def Let_def copy_def clear_def
      split: sum.splits)

subsection \<open>Claims about the writer\<close>

lemma encode_history_concat:
  "map enc ls = map Inr bufs \<Longrightarrow> encode_history enc ls d = Inr (d @ concat bufs)"
proof (induction ls arbitrary: d bufs)
  case Nil
  then show ?case by simp
next
  case (Cons l ls)
  from Cons.prems obtain buf rest where b: "bufs = buf # rest" "enc l = Inr buf"
    "map enc ls = map Inr rest"
    by (cases bufs) auto
  from Cons.IH [OF b(3), of "d @ buf"] b(1,2) show ?case by simp
qed

text \<open>
  Claim C1, as the code has it. \<^verbatim>\<open>Write\<close> drops the oldest records from the history when the
  budget is exceeded, so the history does not keep every record. What holds for every history
  of operations that runs without a fault from a new writer: the writer's history is a suffix
  of the records written, and it is all of them as long as the writer has not been stopped.
  When the records of the history encode to the buffers \<open>bufs\<close>, one for each record and in
  the order of the history, \<^verbatim>\<open>Close\<close> uploads the concatenation of these buffers (after its
  flush, if it makes one), closes the stream and returns the answer to the upload.
\<close>

theorem history_suffix_of_written:
  assumes "run tm enc (SetLimit L (New cl k t)) ops = Inr b"
    and "map enc (history b) = map Inr bufs"
  shows "(\<exists>evicted. written tm ops = evicted @ history b) \<and>
         (closed b \<or> history b = written tm ops) \<and>
         length bufs = length (history b) \<and>
         fst (Close enc rb ru rc b) = ru \<and>
         client (snd (Close enc rb ru rc b)) =
           client b
             @ (if closed b \<or> pending b = [] then [] else [Batch_call k (pending b)])
             @ [Upload_call k (concat bufs), Close_call k]"
proof -
  from New_inv [of tm L cl k t]
  have h0: "hist_inv tm [] (SetLimit L (New cl k t))" and p0: "pend_inv (SetLimit L (New cl k t))"
    by simp_all
  from run_inv [OF assms(1) h0 p0]
  have "hist_inv tm (concat (map parts_of ops)) b" and kb: "key b = k"
    by (simp_all add: SetLimit_def New_def)
  then have s: "(\<exists>evicted. written tm ops = evicted @ history b) \<and>
         (closed b \<or> history b = written tm ops)"
    unfolding hist_inv_def written_def by blast
  have e: "encode_history enc (history b) [] = Inr (concat bufs)"
    using encode_history_concat [OF assms(2), of "[]"] by simp
  have l: "length bufs = length (history b)"
    using arg_cong [OF assms(2), of length] by simp
  from s l show ?thesis by (simp add: Close_cases [of enc rb ru rc b] e kb)
qed

theorem history_suffix_of_written_witness:
  "run clock0 enc_message (SetLimit 7 (New [] ''k'' 0))
      [OpWrite ''abc'', OpWrite ''def'', OpWrite ''ghi''] = Inr b_evicted \<and>
   map enc_message (history b_evicted) = map Inr [''def'', ''ghi''] \<and>
   (\<exists>evicted. written clock0 [OpWrite ''abc'', OpWrite ''def'', OpWrite ''ghi'']
       = evicted @ history b_evicted) \<and>
   client (snd (Close enc_message None None None b_evicted)) =
     client b_evicted @ [Upload_call ''k'' ''defghi'', Close_call ''k'']"
proof -
  have h1: "run clock0 enc_message (SetLimit 7 (New [] ''k'' 0))
      [OpWrite ''abc'', OpWrite ''def'', OpWrite ''ghi''] = Inr b_evicted"
    by code_simp
  have h2: "map enc_message (history b_evicted) = map Inr [''def'', ''ghi'']"
    by (simp add: b_evicted_def enc_message_def)
  have h3: "closed b_evicted" by (simp add: b_evicted_def)
  from history_suffix_of_written [OF h1 h2, where rb = None and ru = None and rc = None] h1 h2
  show ?thesis by (simp add: h3)
qed

text \<open>Under limit 7 the third of three three-byte writes evicts the first record: the history
  and the upload of \<^verbatim>\<open>Close\<close> hold the two later records and not the first, which was
  written.\<close>

theorem full_history_counterexample:
  "written clock0 [OpWrite ''abc'', OpWrite ''def'', OpWrite ''ghi''] =
     [\<lparr>Number = 0, Message = ''abc'', Timestamp = 0, Level = ''info''\<rparr>,
      \<lparr>Number = 1, Message = ''def'', Timestamp = 0, Level = ''info''\<rparr>,
      \<lparr>Number = 2, Message = ''ghi'', Timestamp = 0, Level = ''info''\<rparr>] \<and>
   map_sum id history (run clock0 enc_message (SetLimit 7 (New [] ''k'' 0))
       [OpWrite ''abc'', OpWrite ''def'', OpWrite ''ghi'']) =
     Inr [\<lparr>Number = 1, Message = ''def'', Timestamp = 0, Level = ''info''\<rparr>,
          \<lparr>Number = 2, Message = ''ghi'', Timestamp = 0, Level = ''info''\<rparr>] \<and>
   map_sum id client (run clock0 enc_message (SetLimit 7 (New [] ''k'' 0))
       [OpWrite ''abc'', OpWrite ''def'', OpWrite ''ghi'', OpClose None None None]) =
     Inr [Open_call ''k'', Upload_call ''k'' ''defghi'', Close_call ''k'']"
  by code_simp

text \<open>The pending batch of a writer with a limit \<open>L \<ge> 0\<close> never holds more than \<open>L\<close> bytes,
  in whatever state the writer is after a history of operations.\<close>

lemma pending_within_limit:
  assumes "0 \<le> L" and "run tm enc (SetLimit L (New cl k t)) ops = Inr b"
  shows "total_len (pending b) \<le> L"
proof -
  from New_inv [of tm L cl k t]
  have h0: "hist_inv tm [] (SetLimit L (New cl k t))" and p0: "pend_inv (SetLimit L (New cl k t))"
    by simp_all
  from run_inv [OF assms(2) h0 p0]
  have "pend_inv b" and "limit b = L" by (simp_all add: SetLimit_def New_def)
  with assms(1) show ?thesis by (simp add: pend_inv_def)
qed

text \<open>
  Claim C2 says that, for each line of a block, the eviction loop runs while the tracked size
  plus the length of that line would exceed the limit. The guard of the code adds \<^verbatim>\<open>len(p)\<close>,
  the length of the whole block, to a size that already holds the earlier lines of the same
  block. Ten bytes written under limit 10, a line of six bytes and then a block of two lines
  of two bytes: before the second line of the block the size is 8, and with the line it is
  within the limit; \<^verbatim>\<open>Write\<close> adds the four bytes of the block, evicts record 0 and stops the
  streaming. The loop as the claim words it keeps all four records.
\<close>

theorem Write_evicts_within_limit:
  "run clock0 enc_message (SetLimit 10 (New [] ''k'' 0)) [OpWrite ''aaaaa\<newline>''] = Inr b_six \<and>
   total_len (written clock0 [OpWrite ''aaaaa\<newline>'', OpWrite ''b\<newline>c\<newline>'']) = 10 \<and>
   map_sum id (history \<circ> snd) (Write clock0 ''b\<newline>c\<newline>'' b_six) =
     Inr [\<lparr>Number = 1, Message = ''b\<newline>'', Timestamp = 0, Level = ''info''\<rparr>,
          \<lparr>Number = 2, Message = ''c\<newline>'', Timestamp = 0, Level = ''info''\<rparr>,
          \<lparr>Number = 3, Message = '''', Timestamp = 0, Level = ''info''\<rparr>] \<and>
   map_sum id (closed \<circ> snd) (Write clock0 ''b\<newline>c\<newline>'' b_six) = Inr True \<and>
   map_sum id history (write_parts_by_line clock0 b_six (split ''b\<newline>c\<newline>'')) =
     Inr [\<lparr>Number = 0, Message = ''aaaaa\<newline>'', Timestamp = 0, Level = ''info''\<rparr>,
          \<lparr>Number = 1, Message = ''b\<newline>'', Timestamp = 0, Level = ''info''\<rparr>,
          \<lparr>Number = 2, Message = ''c\<newline>'', Timestamp = 0, Level = ''info''\<rparr>,
          \<lparr>Number = 3, Message = '''', Timestamp = 0, Level = ''info''\<rparr>] \<and>
   map_sum id closed (write_parts_by_line clock0 b_six (split ''b\<newline>c\<newline>'')) = Inr False"
  by code_simp

text \<open>
  Claim C3, as the code has it. Only the flush of \<^verbatim>\<open>Close\<close> is guarded by \<^verbatim>\<open>stop\<close>. When the
  history encodes to \<open>data\<close>, the first \<^verbatim>\<open>Close\<close> flushes a non-empty pending batch unless the
  writer was stopped before, uploads \<open>data\<close> and closes the stream; a second \<^verbatim>\<open>Close\<close> makes
  no flush, and uploads \<open>data\<close> and closes the stream again; each call returns the answer to
  its own upload. When a record of the history cannot be encoded, both calls return that
  error, and the second call still closes the stream again.
\<close>

theorem second_Close_uploads_again:
  "case encode_history enc (history b) [] of
     Inl err \<Rightarrow>
       fst (Close enc rb1 ru1 rc1 b) = Some err \<and>
       fst (Close enc rb2 ru2 rc2 (snd (Close enc rb1 ru1 rc1 b))) = Some err \<and>
       client (snd (Close enc rb2 ru2 rc2 (snd (Close enc rb1 ru1 rc1 b)))) =
         client (snd (Close enc rb1 ru1 rc1 b)) @ [Close_call (key b)]
   | Inr data \<Rightarrow>
       client (snd (Close enc rb1 ru1 rc1 b)) =
         client b
           @ (if closed b \<or> pending b = [] then [] else [Batch_call (key b) (pending b)])
           @ [Upload_call (key b) data, Close_call (key b)] \<and>
       fst (Close enc rb1 ru1 rc1 b) = ru1 \<and>
       client (snd (Close enc rb2 ru2 rc2 (snd (Close enc rb1 ru1 rc1 b)))) =
         client (snd (Close enc rb1 ru1 rc1 b)) @ [Upload_call (key b) data, Close_call (key b)] \<and>
       fst (Close enc rb2 ru2 rc2 (snd (Close enc rb1 ru1 rc1 b))) = ru2"
proof -
  let ?b1 = "snd (Close enc rb1 ru1 rc1 b)"
  have h: "history ?b1 = history b" "key ?b1 = key b" "closed ?b1"
    by (simp_all add: Close_cases [of enc rb1 ru1 rc1 b] split: sum.splits)
  show ?thesis
  proof (cases "encode_history enc (history b) []")
    case (Inl err)
    then have "encode_history enc (history ?b1) [] = Inl err" by (simp add: h)
    then have "fst (Close enc rb2 ru2 rc2 ?b1) = Some err"
      "client (snd (Close enc rb2 ru2 rc2 ?b1)) = client ?b1 @ [Close_call (key b)]"
      using h(2,3) by (simp_all add: Close_cases [of enc rb2 ru2 rc2 ?b1])
    moreover have "fst (Close enc rb1 ru1 rc1 b) = Some err"
      by (simp add: Close_cases [of enc rb1 ru1 rc1 b] Inl)
    ultimately show ?thesis by (simp add: Inl)
  next
    case (Inr data)
    then have "encode_history enc (history ?b1) [] = Inr data" by (simp add: h)
    then have "fst (Close enc rb2 ru2 rc2 ?b1) = ru2"
      "client (snd (Close enc rb2 ru2 rc2 ?b1)) =
         client ?b1 @ [Upload_call (key b) data, Close_call (key b)]"
      using h(2,3) by (simp_all add: Close_cases [of enc rb2 ru2 rc2 ?b1])
    moreover have "fst (Close enc rb1 ru1 rc1 b) = ru1"
      "client ?b1 = client b
           @ (if closed b \<or> pending b = [] then [] else [Batch_call (key b) (pending b)])
           @ [Upload_call (key b) data, Close_call (key b)]"
      by (simp_all add: Close_cases [of enc rb1 ru1 rc1 b] Inr)
    ultimately show ?thesis by (simp add: Inr)
  qed
qed

theorem second_Close_uploads_again_witness:
  "encode_history enc_message (history b_full) [] = Inr ''aaaaaaa\<newline>'' \<and>
   client (snd (Close enc_message None None None b_full)) =
     client b_full
       @ [Batch_call (key b_full) (pending b_full),
          Upload_call (key b_full) ''aaaaaaa\<newline>'', Close_call (key b_full)] \<and>
   client (snd (Close enc_message None None None
       (snd (Close enc_message None None None b_full)))) =
     client (snd (Close enc_message None None None b_full))
       @ [Upload_call (key b_full) ''aaaaaaa\<newline>'', Close_call (key b_full)] \<and>
   fst (Close enc_message None (Some (Error ''upload failed'')) None
       (snd (Close enc_message None None None b_full))) = Some (Error ''upload failed'')"
proof -
  have h1: "encode_history enc_message (history b_full) [] = Inr ''aaaaaaa\<newline>''"
    by code_simp
  have h2: "\<not> closed b_full" "pending b_full \<noteq> []" by (simp_all add: b_full_def)
  from second_Close_uploads_again [where enc = enc_message and b = b_full and ?rb1.0 = None
      and ?ru1.0 = None and ?rc1.0 = None and ?rb2.0 = None
      and ?ru2.0 = "Some (Error ''upload failed'')" and ?rc2.0 = None]
  have a: "fst (Close enc_message None (Some (Error ''upload failed'')) None
       (snd (Close enc_message None None None b_full))) = Some (Error ''upload failed'')"
    by (simp add: h1)
  from second_Close_uploads_again [where enc = enc_message and b = b_full and ?rb1.0 = None
      and ?ru1.0 = None and ?rc1.0 = None and ?rb2.0 = None and ?ru2.0 = None and ?rc2.0 = None]
  have b: "client (snd (Close enc_message None None None b_full)) =
     client b_full
       @ [Batch_call (key b_full) (pending b_full),
          Upload_call (key b_full) ''aaaaaaa\<newline>'', Close_call (key b_full)]"
    "client (snd (Close enc_message None None None
       (snd (Close enc_message None None None b_full)))) =
     client (snd (Close enc_message None None None b_full))
       @ [Upload_call (key b_full) ''aaaaaaa\<newline>'', Close_call (key b_full)]"
    by (simp_all add: h1 h2)
  from h1 a b show ?thesis by blast
qed

text \<open>Two calls of \<^verbatim>\<open>Close\<close> on a new writer: two uploads and two stream closes, and the
  second call returns the error of its upload.\<close>

theorem Close_idempotent_counterexample:
  "client (snd (Close enc_message None None None
       (snd (Close enc_message None None None (New [] ''k'' 0))))) =
     [Open_call ''k'', Upload_call ''k'' '''', Close_call ''k'', Upload_call ''k'' '''', Close_call ''k''] \<and>
   fst (Close enc_message None (Some (Error ''upload failed'')) None
       (snd (Close enc_message None None None (New [] ''k'' 0)))) = Some (Error ''upload failed'')"
  by code_simp

text \<open>A block of two lines, each ended by its line feed, splits into three parts, the last
  one empty.\<close>

lemma SplitAfterLF_no_LF: "LF \<notin> set s \<Longrightarrow> SplitAfterLF s = [s]"
  by (induction s) auto

lemma SplitAfterLF_line: "LF \<notin> set a \<Longrightarrow> SplitAfterLF (a @ LF # r) = (a @ [LF]) # SplitAfterLF r"
  by (induction a) auto

lemma split_two_lines:
  assumes "LF \<notin> set a" and "LF \<notin> set b"
  shows "split (a @ [LF] @ b @ [LF]) = [a @ [LF], b @ [LF], []]"
proof -
  have "TrimSuffixLF (a @ [LF] @ b @ [LF]) = a @ [LF] @ b"
    by (simp add: TrimSuffixLF_def butlast_append)
  then have "ContainsLF (TrimSuffixLF (a @ [LF] @ b @ [LF]))" by (simp add: ContainsLF_def)
  moreover have "SplitAfterLF (a @ [LF] @ b @ [LF]) = [a @ [LF], b @ [LF], []]"
    using SplitAfterLF_line [OF assms(1), of "b @ [LF]"] SplitAfterLF_line [OF assms(2), of "[]"]
    by simp
  ultimately show ?thesis by (simp add: split_def)
qed

text \<open>
  Claim C8 says that a block with two line breaks gives two records. At the block
  \<open>a\<newline>b\<newline>\<close> the code gives three: \<^verbatim>\<open>strings.SplitAfter\<close> ends with the empty rest of the block,
  and \<^verbatim>\<open>Write\<close> makes a record of it, numbered 2, with an empty message.
\<close>

theorem Write_two_lines_three_records: "split ''a\<newline>b\<newline>'' = [''a\<newline>'', ''b\<newline>'', ''''] \<and>
   map_sum id history (run clock0 enc_message (New [] ''k'' 0) [OpWrite ''a\<newline>b\<newline>'']) =
     Inr [\<lparr>Number = 0, Message = ''a\<newline>'', Timestamp = 0, Level = ''info''\<rparr>,
          \<lparr>Number = 1, Message = ''b\<newline>'', Timestamp = 0, Level = ''info''\<rparr>,
          \<lparr>Number = 2, Message = '''', Timestamp = 0, Level = ''info''\<rparr>]"
  by code_simp

text \<open>When the tracked size is the size of the history, a block longer than the limit makes
  the eviction loop empty the history and then read its first record. The tracked size is
  the size of the history in every state reached from a new writer, so there every write of
  a block longer than the limit ends in the fault.\<close>

lemma evict_over_limit:
  assumes "size' b = total_len (history b)" and "limit b < int n"
  shows "evict n b = Inl IndexOutOfRange"
proof (cases "evict n b")
  case (Inl f)
  with evict_Inl [of n b f] show ?thesis by simp
next
  case (Inr b')
  from evict_Inr [OF Inr] obtain dropped kept where d: "history b = dropped @ kept"
    "size' b - total_len dropped + int n \<le> limit b"
    by blast
  have "size' b - total_len dropped = total_len kept" using assms(1) d(1) by simp
  with d(2) assms(2) total_len_nonneg [of kept] show ?thesis by simp
qed

lemma split_nonempty: "split p \<noteq> []"
  by (simp add: split_def SplitAfterLF_nonempty)

lemma Write_over_limit_faults:
  assumes "size' b = total_len (history b)" and "limit b < int (length p)"
  shows "Write tm p b = Inl IndexOutOfRange"
proof -
  obtain part parts where s: "split p = part # parts"
    using split_nonempty [of p] by (cases "split p") auto
  have "write_part tm (length p) b part = Inl IndexOutOfRange"
    by (simp add: write_part_def evict_over_limit [OF assms])
  then show ?thesis by (simp add: Write_def s)
qed

lemma write_part_size:
  assumes "write_part tm n b part = Inr b'" and "size' b = total_len (history b)"
  shows "size' b' = total_len (history b')"
proof -
  from write_part_Inr [OF assms(1)] obtain dropped kept where d:
    "history b = dropped @ kept"
    "b' = b\<lparr>size' := size' b - total_len dropped + int (length part),
                  num := num b + 1,
                  closed := closed b \<or> dropped \<noteq> [],
                  pending := (if closed b \<or> dropped \<noteq> [] then pending b
                              else pending b @ [new_line tm b part]),
                  history := kept @ [new_line tm b part]\<rparr>"
    by blast
  show ?thesis using assms(2) d(1) by (simp add: d(2) new_line_def)
qed

lemma write_parts_size:
  "write_parts tm n b parts = Inr b' \<Longrightarrow> size' b = total_len (history b) \<Longrightarrow>
     size' b' = total_len (history b')"
proof (induction parts arbitrary: b)
  case Nil
  then show ?case by simp
next
  case (Cons part parts)
  from Cons.prems(1) obtain b1 where b1: "write_part tm n b part = Inr b1"
    and rest: "write_parts tm n b1 parts = Inr b'"
    by (auto split: sum.splits)
  from Cons.IH [OF rest write_part_size [OF b1 Cons.prems(2)]] show ?case .
qed

lemma exec_size:
  assumes "exec tm enc b x = Inr b'" and "size' b = total_len (history b)"
  shows "size' b' = total_len (history b')"
proof (cases x)
  case (OpWrite p)
  with assms(1) obtain b1 where "write_parts tm (length p) b (split p) = Inr b1"
    and "b' = b1\<lparr>ready := True\<rparr>"
    by (auto simp: Write_def split: sum.splits)
  with write_parts_size [OF _ assms(2)] show ?thesis by simp
next
  case (OpFlush r)
  with assms show ?thesis
    by (auto simp: flush_def Let_def copy_def clear_def)
next
  case (OpClose rb ru rc)
  with assms show ?thesis
    by (auto simp: Close_def stop_def upload_def flush_def Let_def copy_def clear_def
        split: sum.splits prod.splits if_splits)
qed

lemma run_size:
  "run tm enc b xs = Inr b' \<Longrightarrow> size' b = total_len (history b) \<Longrightarrow>
     size' b' = total_len (history b')"
proof (induction xs arbitrary: b)
  case Nil
  then show ?case by simp
next
  case (Cons x xs)
  from Cons.prems(1) obtain b1 where b1: "exec tm enc b x = Inr b1"
    and rest: "run tm enc b1 xs = Inr b'"
    by (auto split: sum.splits)
  from Cons.IH [OF rest exec_size [OF b1 Cons.prems(2)]] show ?case .
qed

lemma Write_faults_over_limit_reached:
  assumes "run tm enc (SetLimit L (New cl k t)) ops = Inr b" and "L < int (length p)"
  shows "Write tm p b = Inl IndexOutOfRange"
proof -
  have "size' b = total_len (history b)"
    by (rule run_size [OF assms(1)]) (simp add: SetLimit_def New_def)
  moreover have "limit b = L"
  proof -
    from New_inv [of tm L cl k t]
    have h0: "hist_inv tm [] (SetLimit L (New cl k t))" and p0: "pend_inv (SetLimit L (New cl k t))"
      by simp_all
    from run_inv [OF assms(1) h0 p0] show ?thesis by (simp add: SetLimit_def New_def)
  qed
  ultimately show ?thesis using assms(2) by (simp add: Write_over_limit_faults)
qed

text \<open>
  Claim C9 says that \<^verbatim>\<open>Write\<close> never faults. At the first write of five bytes under limit 4
  the eviction loop reads \<^verbatim>\<open>b.history[0]\<close> of the empty history, and the write ends in a
  run-time fault instead of returning.
\<close>

theorem Write_first_block_over_limit_faults: "Write clock0 ''hello'' (SetLimit 4 (New [] ''k'' 0)) = Inl IndexOutOfRange"
  by code_simp

section \<open>Properties of the engine\<close>

subsection \<open>Run\<close>

text \<open>
  Claim C5. When the stages before the command succeed and the remote command completes
  with error \<open>err\<close> (the context is not done first), the state that \<^verbatim>\<open>Run\<close> returns has exit
  code 0 for a nil error, the status of a structured exit-status error (17 for status 17),
  and 255 for any other error; \<^verbatim>\<open>Exited\<close> is true and \<^verbatim>\<open>OOMKilled\<close> is false in every case.
\<close>

theorem Run_exit_mapping:
  assumes "ssh_Dial ev (IP (Instance spec)) (User (Instance spec)) (PrivateKey (Instance spec)) = None"
    and "sftp_NewClient ev = None"
    and "upload_scripts ev spec step (step_Files step) = None"
    and "client_NewSession ev = None"
    and "session_Race ev (Command step @ '' '' @ Join (Args step)) = Done err"
  shows "fst (Run ev spec step) =
     Some \<lparr> ExitCode = (case err of None \<Rightarrow> 0 | Some (ExitError status) \<Rightarrow> status
                                     | Some (Error msg) \<Rightarrow> 255),
             Exited = True, OOMKilled = False \<rparr>"
proof (cases err)
  case None
  with assms have "Run ev spec step = (Some \<lparr> ExitCode = 0, Exited = True, OOMKilled = False \<rparr>, None)"
    by (simp add: Run_def)
  with None show ?thesis by simp
next
  case (Some e)
  show ?thesis
  proof (cases e)
    case (ExitError status)
    with Some assms
    have "Run ev spec step =
        (Some \<lparr> ExitCode = status, Exited = True, OOMKilled = False \<rparr>, Some (ExitError status))"
      by (simp add: Run_def)
    with Some ExitError show ?thesis by simp
  next
    case (Error msg)
    with Some assms
    have "Run ev spec step =
        (Some \<lparr> ExitCode = 255, Exited = True, OOMKilled = False \<rparr>, Some (Error msg))"
      by (simp add: Run_def)
    with Some Error show ?thesis by simp
  qed
qed

theorem Run_exit_mapping_witness:
  "ssh_Dial (env_ok\<lparr>session_Race := race_ends (Some (ExitError 17))\<rparr>)
       (IP (Instance spec0)) (User (Instance spec0)) (PrivateKey (Instance spec0)) = None \<and>
   sftp_NewClient (env_ok\<lparr>session_Race := race_ends (Some (ExitError 17))\<rparr>) = None \<and>
   upload_scripts (env_ok\<lparr>session_Race := race_ends (Some (ExitError 17))\<rparr>) spec0 step0
       (step_Files step0) = None \<and>
   client_NewSession (env_ok\<lparr>session_Race := race_ends (Some (ExitError 17))\<rparr>) = None \<and>
   session_Race (env_ok\<lparr>session_Race := race_ends (Some (ExitError 17))\<rparr>)
       (Command step0 @ '' '' @ Join (Args step0)) = Done (Some (ExitError 17)) \<and>
   fst (Run (env_ok\<lparr>session_Race := race_ends (Some (ExitError 17))\<rparr>) spec0 step0) =
     Some \<lparr> ExitCode = 17, Exited = True, OOMKilled = False \<rparr>"
proof -
  let ?ev = "env_ok\<lparr>session_Race := race_ends (Some (ExitError 17))\<rparr>"
  have h1: "ssh_Dial ?ev (IP (Instance spec0)) (User (Instance spec0)) (PrivateKey (Instance spec0)) = None"
    by (simp add: env_ok_def)
  have h2: "sftp_NewClient ?ev = None" by (simp add: env_ok_def)
  have h3: "upload_scripts ?ev spec0 step0 (step_Files step0) = None" by (simp add: step0_def)
  have h4: "client_NewSession ?ev = None" by (simp add: env_ok_def)
  have h5: "session_Race ?ev (Command step0 @ '' '' @ Join (Args step0)) = Done (Some (ExitError 17))"
    by (simp add: race_ends_def)
  from Run_exit_mapping [OF h1 h2 h3 h4 h5] h1 h2 h3 h4 h5 show ?thesis by simp
qed

lemma Run_done:
  assumes "ssh_Dial ev (IP (Instance spec)) (User (Instance spec)) (PrivateKey (Instance spec)) = None"
    and "sftp_NewClient ev = None"
    and "upload_scripts ev spec step (step_Files step) = None"
    and "client_NewSession ev = None"
    and "session_Race ev (Command step @ '' '' @ Join (Args step)) = Done err"
  shows "Run ev spec step =
     (Some \<lparr> ExitCode = (case err of None \<Rightarrow> 0 | Some (ExitError status) \<Rightarrow> status
                                     | Some (Error msg) \<Rightarrow> 255),
             Exited = True, OOMKilled = False \<rparr>, err)"
  using assms by (simp add: Run_def Let_def split: option.splits error.splits)

text \<open>
  Claim C4, as the code has it. \<^verbatim>\<open>Run\<close> ends with \<^verbatim>\<open>return state, err\<close>: when the remote command
  completes with an error, \<^verbatim>\<open>Run\<close> returns a state that holds the exit code together with
  that same error, so its error result is not nil.
\<close>

theorem Run_returns_command_error:
  assumes "ssh_Dial ev (IP (Instance spec)) (User (Instance spec)) (PrivateKey (Instance spec)) = None"
    and "sftp_NewClient ev = None"
    and "upload_scripts ev spec step (step_Files step) = None"
    and "client_NewSession ev = None"
    and "session_Race ev (Command step @ '' '' @ Join (Args step)) = Done (Some err)"
  shows "\<exists>state. Run ev spec step = (Some state, Some err) \<and> Exited state \<and>
           ExitCode state = (case err of ExitError status \<Rightarrow> status | Error msg \<Rightarrow> 255)"
  by (simp add: Run_done [OF assms] split: error.splits)

theorem Run_returns_command_error_witness:
  "ssh_Dial (env_ok\<lparr>session_Race := race_ends (Some (ExitError 1))\<rparr>)
       (IP (Instance spec0)) (User (Instance spec0)) (PrivateKey (Instance spec0)) = None \<and>
   sftp_NewClient (env_ok\<lparr>session_Race := race_ends (Some (ExitError 1))\<rparr>) = None \<and>
   upload_scripts (env_ok\<lparr>session_Race := race_ends (Some (ExitError 1))\<rparr>) spec0 step0
       (step_Files step0) = None \<and>
   client_NewSession (env_ok\<lparr>session_Race := race_ends (Some (ExitError 1))\<rparr>) = None \<and>
   session_Race (env_ok\<lparr>session_Race := race_ends (Some (ExitError 1))\<rparr>)
       (Command step0 @ '' '' @ Join (Args step0)) = Done (Some (ExitError 1)) \<and>
   (\<exists>state. Run (env_ok\<lparr>session_Race := race_ends (Some (ExitError 1))\<rparr>) spec0 step0 =
       (Some state, Some (ExitError 1)) \<and> Exited state \<and> ExitCode state = 1)"
proof -
  let ?ev = "env_ok\<lparr>session_Race := race_ends (Some (ExitError 1))\<rparr>"
  have h1: "ssh_Dial ?ev (IP (Instance spec0)) (User (Instance spec0)) (PrivateKey (Instance spec0)) = None"
    by (simp add: env_ok_def)
  have h2: "sftp_NewClient ?ev = None" by (simp add: env_ok_def)
  have h3: "upload_scripts ?ev spec0 step0 (step_Files step0) = None" by (simp add: step0_def)
  have h4: "client_NewSession ?ev = None" by (simp add: env_ok_def)
  have h5: "session_Race ?ev (Command step0 @ '' '' @ Join (Args step0)) = Done (Some (ExitError 1))"
    by (simp add: race_ends_def)
  from Run_returns_command_error [OF h1 h2 h3 h4 h5] h1 h2 h3 h4 h5 show ?thesis by simp
qed

text \<open>A step that exits with status 1: \<^verbatim>\<open>Run\<close> returns the exit-status error next to the
  state.\<close>

theorem Run_success_counterexample:
  "Run (env_ok\<lparr>session_Race := race_ends (Some (ExitError 1))\<rparr>) spec0 step0 =
     (Some \<lparr> ExitCode = 1, Exited = True, OOMKilled = False \<rparr>, Some (ExitError 1))"
  by (simp add: Run_def env_ok_def step0_def race_ends_def)

subsection \<open>Setup\<close>

lemma add_tags_nil: "Tags (Instance spec) = None \<Longrightarrow> add_tags e spec = Inl NilMapWrite"
  by (simp add: add_tags_def)

lemma add_tags_allocated:
  "Tags (Instance spec) = Some tags \<Longrightarrow>
     add_tags e spec =
       Inr (spec\<lparr>Instance := (Instance spec)
         \<lparr>Tags := Some (if UsePool (Instance spec)
                   then tags(''drone'' \<mapsto> ''drone-runner-aws'', ''pool'' \<mapsto> PoolName spec,
                          ''creator'' \<mapsto> RunnerName (opts e),
                          ''status'' \<mapsto> ''build in progress'')
                   else tags(''drone'' \<mapsto> ''drone-runner-aws'', ''pool'' \<mapsto> PoolName spec,
                          ''creator'' \<mapsto> RunnerName (opts e)))\<rparr>\<rparr>)"
  by (simp add: add_tags_def Let_def)

lemma adhoc_nil: "Tags (Instance spec) = None \<Longrightarrow> adhoc e ev spec = Inl NilMapWrite"
  by (simp add: adhoc_def add_tags_nil)

lemma adhoc_tagged:
  assumes "add_tags e spec = Inr t"
  shows "adhoc e ev spec =
     (case platform_Create ev (creds_of spec) (provision_args t) of
        Inl createErr \<Rightarrow>
          Inr (Some createErr, t, [Create_call (creds_of spec) (provision_args t)])
      | Inr instance \<Rightarrow>
          Inr (stage ev (t\<lparr>Instance := (Instance t)\<lparr>ID := i_ID instance, IP := i_IP instance\<rparr>\<rparr>),
               t\<lparr>Instance := (Instance t)\<lparr>ID := i_ID instance, IP := i_IP instance\<rparr>\<rparr>,
               [Create_call (creds_of spec) (provision_args t)]))"
  by (simp add: adhoc_def assms Let_def split: sum.splits)

lemma adhoc_allocated_calls:
  assumes "Tags (Instance spec) = Some tags"
  shows "\<exists>err spec1 args. adhoc e ev spec = Inr (err, spec1, [Create_call (creds_of spec) args])"
  using adhoc_tagged [OF add_tags_allocated [OF assms, where e = e], where ev = ev]
  by (auto split: sum.splits)

lemma adhoc_calls:
  "adhoc e ev spec = Inr (err, spec1, calls) \<Longrightarrow> \<exists>args. calls = [Create_call (creds_of spec) args]"
  by (auto simp: adhoc_def Let_def split: sum.splits)

lemma setups_Setup: "Setup e ev spec = Inr (err, spec1, calls) \<Longrightarrow> setups calls = [spec]"
  by (auto simp: Setup_def Let_def split: prod.splits sum.splits if_splits dest: adhoc_calls)

text \<open>
  Claim C6, as the code has it. \<^verbatim>\<open>Setup\<close> logs the error of the reservation and then decides
  by \<open>found\<close> alone. For a pool-backed spec, when \<^verbatim>\<open>TryPool\<close> answers that it found an instance,
  \<^verbatim>\<open>Setup\<close> binds the id and ip it returned into the spec and returns nil, and its only
  request to the platform is the reservation, also when an error comes with the answer. When
  the answer is not found, with or without an error, \<^verbatim>\<open>Setup\<close> goes on with the ad-hoc
  provisioning and ends as that ends; for a spec with an allocated tag map it then returns
  after exactly one request to create an instance.
\<close>

theorem Setup_pool_reservation:
  assumes "UsePool (Instance spec)"
    and "platform_TryPool ev (creds_of spec) (PoolName spec) = (found, ident, ip, poolErr)"
  shows "if found
         then Setup e ev spec =
                Inr (None, spec\<lparr>Instance := (Instance spec)\<lparr>ID := ident, IP := ip\<rparr>\<rparr>,
                     [Setup_enter spec, TryPool_call (creds_of spec) (PoolName spec)])
         else Setup e ev spec =
                (case adhoc e ev spec of
                   Inl f \<Rightarrow> Inl f
                 | Inr (err, spec1, calls) \<Rightarrow>
                     Inr (err, spec1,
                          [Setup_enter spec, TryPool_call (creds_of spec) (PoolName spec)] @ calls)) \<and>
              (Tags (Instance spec) = None \<or>
               (\<exists>err spec1 args.
                  Setup e ev spec =
                    Inr (err, spec1,
                         [Setup_enter spec, TryPool_call (creds_of spec) (PoolName spec),
                          Create_call (creds_of spec) args])))"
proof (cases found)
  case True
  with assms show ?thesis by (simp add: Setup_def)
next
  case False
  with assms have s: "Setup e ev spec =
      (case adhoc e ev spec of
         Inl f \<Rightarrow> Inl f
       | Inr (err, spec1, calls) \<Rightarrow>
           Inr (err, spec1,
                [Setup_enter spec, TryPool_call (creds_of spec) (PoolName spec)] @ calls))"
    by (simp add: Setup_def)
  have "Tags (Instance spec) = None \<or>
      (\<exists>err spec1 args.
         Setup e ev spec =
           Inr (err, spec1,
                [Setup_enter spec, TryPool_call (creds_of spec) (PoolName spec),
                 Create_call (creds_of spec) args]))"
  proof (cases "Tags (Instance spec)")
    case None
    then show ?thesis by simp
  next
    case (Some tags)
    from adhoc_allocated_calls [OF Some, where e = e and ev = ev] obtain err spec1 args
      where "adhoc e ev spec = Inr (err, spec1, [Create_call (creds_of spec) args])"
      by blast
    then show ?thesis by (simp add: s)
  qed
  with s False show ?thesis by simp
qed

theorem Setup_pool_reservation_witness:
  "UsePool (Instance spec0) \<and>
   platform_TryPool (env_ok\<lparr>platform_TryPool := pool_found_error\<rparr>) (creds_of spec0) (PoolName spec0) =
     (True, ''i-7'', ''10.0.0.7'', Some (Error ''create tags failed'')) \<and>
   Setup engine0 (env_ok\<lparr>platform_TryPool := pool_found_error\<rparr>) spec0 =
     Inr (None, spec0\<lparr>Instance := (Instance spec0)\<lparr>ID := ''i-7'', IP := ''10.0.0.7''\<rparr>\<rparr>,
          [Setup_enter spec0, TryPool_call (creds_of spec0) (PoolName spec0)]) \<and>
   platform_TryPool (env_ok\<lparr>platform_TryPool := pool_error\<rparr>) (creds_of spec0) (PoolName spec0) =
     (False, '''', '''', Some (Error ''describe instances failed'')) \<and>
   (\<exists>err spec1 args.
      Setup engine0 (env_ok\<lparr>platform_TryPool := pool_error\<rparr>) spec0 =
        Inr (err, spec1,
             [Setup_enter spec0, TryPool_call (creds_of spec0) (PoolName spec0),
              Create_call (creds_of spec0) args]))"
proof -
  have h1: "UsePool (Instance spec0)" by (simp add: spec0_def)
  have h2: "platform_TryPool (env_ok\<lparr>platform_TryPool := pool_found_error\<rparr>) (creds_of spec0)
      (PoolName spec0) = (True, ''i-7'', ''10.0.0.7'', Some (Error ''create tags failed''))"
    by (simp add: pool_found_error_def)
  have h3: "platform_TryPool (env_ok\<lparr>platform_TryPool := pool_error\<rparr>) (creds_of spec0)
      (PoolName spec0) = (False, '''', '''', Some (Error ''describe instances failed''))"
    by (simp add: pool_error_def)
  have t: "Tags (Instance spec0) \<noteq> None" by (simp add: spec0_def)
  have a: "Setup engine0 (env_ok\<lparr>platform_TryPool := pool_found_error\<rparr>) spec0 =
     Inr (None, spec0\<lparr>Instance := (Instance spec0)\<lparr>ID := ''i-7'', IP := ''10.0.0.7''\<rparr>\<rparr>,
          [Setup_enter spec0, TryPool_call (creds_of spec0) (PoolName spec0)])"
    by (rule Setup_pool_reservation [OF h1 h2, where e = engine0, unfolded if_True])
  have b: "\<exists>err spec1 args.
      Setup engine0 (env_ok\<lparr>platform_TryPool := pool_error\<rparr>) spec0 =
        Inr (err, spec1,
             [Setup_enter spec0, TryPool_call (creds_of spec0) (PoolName spec0),
              Create_call (creds_of spec0) args])"
    using conjunct2 [OF Setup_pool_reservation [OF h1 h3, where e = engine0, unfolded if_False]] t
    by blast
  from h1 h2 a h3 b show ?thesis by blast
qed

text \<open>A reservation that finds an instance and reports an error: \<^verbatim>\<open>Setup\<close> does not fall
  through; it returns nil with the pooled instance bound and makes no request to create an
  instance.\<close>

theorem Setup_reservation_error_counterexample:
  "platform_TryPool (env_ok\<lparr>platform_TryPool := pool_found_error\<rparr>) (creds_of spec0) (PoolName spec0) =
     (True, ''i-7'', ''10.0.0.7'', Some (Error ''create tags failed'')) \<and>
   Setup engine0 (env_ok\<lparr>platform_TryPool := pool_found_error\<rparr>) spec0 =
     Inr (None, spec0\<lparr>Instance := (Instance spec0)\<lparr>ID := ''i-7'', IP := ''10.0.0.7''\<rparr>\<rparr>,
          [Setup_enter spec0, TryPool_call (creds_of spec0) (PoolName spec0)]) \<and>
   creates [Setup_enter spec0, TryPool_call (creds_of spec0) (PoolName spec0)] = []"
  by (simp add: Setup_def pool_found_error_def spec0_def)

text \<open>
  A call of \<^verbatim>\<open>Setup\<close> that is not served from the pool, on a spec with an allocated tag map,
  returns, and leaves the caller's spec as it was but for \<^verbatim>\<open>Instance.Tags\<close>, \<^verbatim>\<open>Instance.ID\<close>
  and \<^verbatim>\<open>Instance.IP\<close>. The tags are the old ones with the keys \<open>drone\<close>, \<open>pool\<close> and \<open>creator\<close>
  written, and \<open>status\<close> too when the spec is pool-backed, whatever error \<^verbatim>\<open>Setup\<close> returns.
  The one request to create an instance carries these tags; when it fails, id and ip are
  unchanged, and when it succeeds they are those of the new instance.
\<close>

lemma Setup_falls_through:
  assumes "\<not> (UsePool (Instance spec) \<and> fst (platform_TryPool ev (creds_of spec) (PoolName spec)))"
  shows "Setup e ev spec =
     (case adhoc e ev spec of
        Inl f \<Rightarrow> Inl f
      | Inr (err, spec1, calls) \<Rightarrow>
          Inr (err, spec1,
               Setup_enter spec #
                 (if UsePool (Instance spec) then [TryPool_call (creds_of spec) (PoolName spec)]
                  else []) @ calls))"
  using assms by (auto simp: Setup_def Let_def split: prod.splits sum.splits)

lemma Setup_adhoc_frame_allocated:
  assumes "\<not> (UsePool (Instance spec) \<and> fst (platform_TryPool ev (creds_of spec) (PoolName spec)))"
    and "Tags (Instance spec) = Some tags"
  shows "\<exists>err spec' calls.
           Setup e ev spec = Inr (err, spec', calls) \<and>
           Tags (Instance spec') =
             Some (if UsePool (Instance spec)
                   then tags(''drone'' \<mapsto> ''drone-runner-aws'', ''pool'' \<mapsto> PoolName spec,
                          ''creator'' \<mapsto> RunnerName (opts e),
                          ''status'' \<mapsto> ''build in progress'')
                   else tags(''drone'' \<mapsto> ''drone-runner-aws'', ''pool'' \<mapsto> PoolName spec,
                          ''creator'' \<mapsto> RunnerName (opts e))) \<and>
           spec'\<lparr>Instance := (Instance spec')\<lparr>Tags := Some tags,
               ID := ID (Instance spec), IP := IP (Instance spec)\<rparr>\<rparr> = spec \<and>
           creates calls = [provision_args spec'] \<and>
           (case platform_Create ev (creds_of spec) (provision_args spec') of
              Inl createErr \<Rightarrow>
                err = Some createErr \<and> ID (Instance spec') = ID (Instance spec) \<and>
                IP (Instance spec') = IP (Instance spec)
            | Inr instance \<Rightarrow>
                ID (Instance spec') = i_ID instance \<and> IP (Instance spec') = i_IP instance)"
proof -
  define tags' where "tags' = (if UsePool (Instance spec)
                   then tags(''drone'' \<mapsto> ''drone-runner-aws'', ''pool'' \<mapsto> PoolName spec,
                          ''creator'' \<mapsto> RunnerName (opts e),
                          ''status'' \<mapsto> ''build in progress'')
                   else tags(''drone'' \<mapsto> ''drone-runner-aws'', ''pool'' \<mapsto> PoolName spec,
                          ''creator'' \<mapsto> RunnerName (opts e)))"
  define t where "t = spec\<lparr>Instance := (Instance spec)\<lparr>Tags := Some tags'\<rparr>\<rparr>"
  have at: "add_tags e spec = Inr t"
    using add_tags_allocated [OF assms(2), where e = e] by (simp add: t_def tags'_def)
  have tt: "Tags (Instance t) = Some tags'" "ID (Instance t) = ID (Instance spec)"
    "IP (Instance t) = IP (Instance spec)"
    by (simp_all add: t_def)
  have rt: "t\<lparr>Instance := (Instance t)\<lparr>Tags := Some tags,
               ID := ID (Instance spec), IP := IP (Instance spec)\<rparr>\<rparr> = spec"
    using assms(2) by (simp add: t_def)
  have pa: "\<And>a b. provision_args (t\<lparr>Instance := (Instance t)\<lparr>ID := a, IP := b\<rparr>\<rparr>) = provision_args t"
    by (simp add: provision_args_def)
  note ft = Setup_falls_through [OF assms(1), where e = e]
  note ad = adhoc_tagged [OF at, where ev = ev]
  show ?thesis
  proof (cases "platform_Create ev (creds_of spec) (provision_args t)")
    case (Inl createErr)
    have s: "Setup e ev spec = Inr (Some createErr, t,
        Setup_enter spec #
          (if UsePool (Instance spec) then [TryPool_call (creds_of spec) (PoolName spec)] else [])
          @ [Create_call (creds_of spec) (provision_args t)])"
      by (simp add: ft ad Inl)
    show ?thesis
      apply (rule exI [of _ "Some createErr"], rule exI [of _ t], rule exI)
      apply (intro conjI)
          apply (rule s)
         apply (simp add: tt tags'_def)
        apply (rule rt)
       apply simp
      apply (simp add: Inl tt)
      done
  next
    case (Inr inst)
    define b where "b = t\<lparr>Instance := (Instance t)\<lparr>ID := i_ID inst, IP := i_IP inst\<rparr>\<rparr>"
    have s: "Setup e ev spec = Inr (stage ev b, b,
        Setup_enter spec #
          (if UsePool (Instance spec) then [TryPool_call (creds_of spec) (PoolName spec)] else [])
          @ [Create_call (creds_of spec) (provision_args t)])"
      by (simp add: ft ad Inr b_def)
    have pb: "provision_args b = provision_args t" by (simp add: b_def pa)
    have tb: "Tags (Instance b) = Some tags'" "ID (Instance b) = i_ID inst"
      "IP (Instance b) = i_IP inst"
      by (simp_all add: b_def t_def)
    have rb: "b\<lparr>Instance := (Instance b)\<lparr>Tags := Some tags,
               ID := ID (Instance spec), IP := IP (Instance spec)\<rparr>\<rparr> = spec"
      using assms(2) by (simp add: b_def t_def)
    show ?thesis
      apply (rule exI [of _ "stage ev b"], rule exI [of _ b], rule exI)
      apply (intro conjI)
          apply (rule s)
         apply (simp add: tb tags'_def)
        apply (rule rb)
       apply (simp add: pb)
      apply (simp add: pb Inr tb)
      done
  qed
qed

text \<open>
  Claim C10 says that every call of \<^verbatim>\<open>Setup\<close> that falls through to the ad-hoc provisioning
  adds the bookkeeping keys to the tags of the spec. On a spec with a nil tag map, which is
  the zero value of the field, the first write \<^verbatim>\<open>awsTags["drone"] = ...\<close> is a run-time fault:
  \<^verbatim>\<open>Setup\<close> adds no key, makes no request to create an instance and does not return.
\<close>

theorem Setup_nil_tags_faults:
  "Tags (Instance spec_nil_tags) = None \<and>
   platform_TryPool env_ok (creds_of spec_nil_tags) (PoolName spec_nil_tags) =
     (False, '''', '''', None) \<and>
   Setup engine0 env_ok spec_nil_tags = Inl NilMapWrite"
proof -
  have t: "Tags (Instance spec_nil_tags) = None" by (simp add: spec_nil_tags_def)
  have u: "UsePool (Instance spec_nil_tags)" by (simp add: spec_nil_tags_def spec0_def)
  have p: "platform_TryPool env_ok (creds_of spec_nil_tags) (PoolName spec_nil_tags) =
      (False, [], [], None)"
    by (simp add: env_ok_def)
  have "Setup engine0 env_ok spec_nil_tags = Inl NilMapWrite"
    by (simp add: Setup_def Let_def u p adhoc_nil [OF t])
  with t p show ?thesis by simp
qed

subsection \<open>Destroy\<close>

text \<open>Whenever \<^verbatim>\<open>Destroy\<close> returns, it returns the error of the platform's destroy request,
  and it has entered \<^verbatim>\<open>Setup\<close> once, with the template of the pool, when that request
  succeeded, the spec is pool-backed and the free count is below the size of the pool, and
  not at all otherwise.\<close>

lemma Destroy_returns:
  assumes "Destroy e ev spec = Inr (err, e', calls)"
  shows "err = platform_Destroy ev (creds_of spec)
                 \<lparr> i_ID = ID (Instance spec), i_IP = IP (Instance spec) \<rparr> \<and>
         (if err = None \<and> UsePool (Instance spec) \<and>
             fst (platform_PoolCountFree ev (creds_of spec) (PoolName spec))
               < pool_size e (PoolName spec)
          then \<exists>pool template. Pools (opts e) (PoolName spec) = Some pool \<and>
                 InstanceSpec pool = Some template \<and> setups calls = [template]
          else setups calls = [] \<and> e' = e)"
proof (cases "platform_Destroy ev (creds_of spec) \<lparr> i_ID = ID (Instance spec), i_IP = IP (Instance spec) \<rparr>")
  case (Some derr)
  with assms show ?thesis by (auto simp: Destroy_def Let_def)
next
  case None
  define n where "n = fst (platform_PoolCountFree ev (creds_of spec) (PoolName spec))"
  have D: "Destroy e ev spec =
      (if UsePool (Instance spec) then
         if n < pool_size e (PoolName spec) then
           (case Pools (opts e) (PoolName spec) of
              None \<Rightarrow> Inl NilDereference
            | Some pool \<Rightarrow>
                (case InstanceSpec pool of
                   None \<Rightarrow> Inl NilDereference
                 | Some template \<Rightarrow>
                     (case Setup e ev template of
                        Inl f \<Rightarrow> Inl f
                      | Inr (createInstanceErr, template1, calls) \<Rightarrow>
                          Inr (None,
                               e\<lparr>opts := (opts e)\<lparr>Pools := (Pools (opts e))
                                   (PoolName spec \<mapsto> pool\<lparr>InstanceSpec := Some template1\<rparr>)\<rparr>\<rparr>,
                               [Destroy_call (creds_of spec) \<lparr> i_ID = ID (Instance spec), i_IP = IP (Instance spec) \<rparr>,
                                PoolCountFree_call (creds_of spec) (PoolName spec)] @ calls))))
         else Inr (None, e, [Destroy_call (creds_of spec) \<lparr> i_ID = ID (Instance spec), i_IP = IP (Instance spec) \<rparr>,
                             PoolCountFree_call (creds_of spec) (PoolName spec)])
       else Inr (None, e, [Destroy_call (creds_of spec) \<lparr> i_ID = ID (Instance spec), i_IP = IP (Instance spec) \<rparr>]))"
    using None by (simp add: Destroy_def Let_def n_def split: prod.splits)
  show ?thesis
  proof (cases "UsePool (Instance spec) \<and> n < pool_size e (PoolName spec)")
    case False
    with D assms have "err = None \<and> setups calls = [] \<and> e' = e"
      by (auto split: if_splits)
    with None False show ?thesis by (simp add: n_def)
  next
    case True
    with D assms obtain pool template r t c where p: "Pools (opts e) (PoolName spec) = Some pool"
      "InstanceSpec pool = Some template" "Setup e ev template = Inr (r, t, c)"
      and res: "err = None"
      "calls = [Destroy_call (creds_of spec) \<lparr> i_ID = ID (Instance spec), i_IP = IP (Instance spec) \<rparr>,
                PoolCountFree_call (creds_of spec) (PoolName spec)] @ c"
      by (auto split: option.splits sum.splits)
    from setups_Setup [OF p(3)] have "setups c = [template]" .
    then have "setups calls = [template]" by (simp add: res(2))
    with p(1,2) res(1) None True show ?thesis by (simp add: n_def)
  qed
qed

text \<open>
  Claim C7 says that \<^verbatim>\<open>Destroy\<close> returns success once the destroy request has succeeded.
  With a pool whose template has a nil tag map and no free instance to reserve, the
  replenishing \<^verbatim>\<open>Setup\<close> ends in the fault of the first tag write, and \<^verbatim>\<open>Destroy\<close> with it;
  with a negative free count and a pool that is not configured, \<^verbatim>\<open>Setup\<close> is called on the
  nil template of the zero \<^verbatim>\<open>Pool\<close>. In both cases \<^verbatim>\<open>Destroy\<close> does not return.
\<close>

theorem Destroy_replenish_faults:
  "platform_Destroy env_ok (creds_of spec0)
      \<lparr> i_ID = ID (Instance spec0), i_IP = IP (Instance spec0) \<rparr> = None \<and>
   Destroy engine_nil_tags env_ok spec0 = Inl NilMapWrite \<and>
   Destroy engine0 (env_ok\<lparr>platform_PoolCountFree := count_negative\<rparr>) spec_other_pool =
     Inl NilDereference"
proof -
  have a: "platform_Destroy env_ok (creds_of spec0)
      \<lparr> i_ID = ID (Instance spec0), i_IP = IP (Instance spec0) \<rparr> = None"
    by (simp add: env_ok_def)
  have t: "Tags (Instance spec_nil_tags) = None" by (simp add: spec_nil_tags_def)
  have u: "UsePool (Instance spec_nil_tags)" by (simp add: spec_nil_tags_def spec0_def)
  have p: "platform_TryPool env_ok (creds_of spec_nil_tags) (PoolName spec_nil_tags) =
      (False, [], [], None)"
    by (simp add: env_ok_def)
  have s: "Setup engine_nil_tags env_ok spec_nil_tags = Inl NilMapWrite"
    by (simp add: Setup_def Let_def u p adhoc_nil [OF t])
  have u0: "UsePool (Instance spec0)" "PoolName spec0 = ''ubuntu''" by (simp_all add: spec0_def)
  have n: "platform_PoolCountFree env_ok (creds_of spec0) ''ubuntu'' = (0, None)"
    by (simp add: env_ok_def)
  have q: "Pools (opts engine_nil_tags) ''ubuntu'' =
      Some \<lparr> InstanceSpec = Some spec_nil_tags, PoolSize = 1 \<rparr>"
    by (simp add: engine_nil_tags_def)
  have b: "Destroy engine_nil_tags env_ok spec0 = Inl NilMapWrite"
    by (simp add: Destroy_def Let_def a u0 n q s pool_size_def)
  have d: "platform_Destroy env_ok (creds_of spec_other_pool)
      \<lparr> i_ID = ID (Instance spec_other_pool), i_IP = IP (Instance spec_other_pool) \<rparr> = None"
    by (simp add: env_ok_def)
  have uo: "UsePool (Instance spec_other_pool)" "PoolName spec_other_pool = ''other''"
    by (simp_all add: spec_other_pool_def spec0_def)
  have r: "Pools (opts engine0) ''other'' = None" by (simp add: engine0_def)
  have c: "Destroy engine0 (env_ok\<lparr>platform_PoolCountFree := count_negative\<rparr>) spec_other_pool =
     Inl NilDereference"
    by (simp add: Destroy_def Let_def d uo count_negative_def r pool_size_def)
  from a b c show ?thesis by blast
qed

end
